theory Spec2Isabelle
  imports Main "HOL-Library.Word"
begin

unbundle bit_operations_syntax

section \<open>The cpuidle driver registry (drivers/cpuidle/driver.c)\<close>

text \<open>
  The file keeps, for every CPU, the idle driver that owns it, under one spin lock.
  Every function below is the body that runs with the lock held, so one call is one
  atomic step on the kernel state. Functions whose C name starts with two underscores
  carry the prefix \<open>uu_\<close> here.

  A result \<open>None\<close> means that the C program has left defined behaviour at that
  point: a null pointer was dereferenced, or an array was read or written outside its
  bounds. Arithmetic on \<open>int\<close> wraps around, 32 bits wide in two's complement, as it
  does in the kernel as it is compiled.
\<close>

subsection \<open>Data\<close>

type_synonym cpu = nat
type_synonym cpumask = "nat set"
type_synonym drv_ptr = nat

text \<open>The \<open>enter\<close> callback of a state: a function pointer that the file stores and
  never calls. \<open>poll_idle\<close> is the address of the function of that name in the file,
  which spins with interrupts enabled until a reschedule is requested and returns its
  \<open>index\<close>; \<open>driver_fn\<close> stands for the functions of the producers.\<close>

datatype enter_fn = NULL_fn | poll_idle | driver_fn nat

text \<open>Modelled from the spec: \<open>struct cpuidle_state\<close> is declared in
  \<open>linux/cpuidle.h\<close>, which is not among the files. The record has the fields that
  \<open>driver.c\<close> writes or reads: the spec's name, description, exit latency, target
  residency, power-usage score, flags, disabled flag and enter callback. Latency,
  residency, power usage and flags are 32-bit words; the assignment \<open>power_usage = -1\<close>
  stores the word with all bits set.\<close>

record cpuidle_state =
  name :: string
  desc :: string
  flags :: "32 word"
  exit_latency :: "32 word"
  power_usage :: "32 word"
  target_residency :: "32 word"
  disabled :: bool
  enter :: enter_fn

text \<open>Modelled from the spec: \<open>struct cpuidle_driver\<close> is declared in
  \<open>linux/cpuidle.h\<close>, which is not among the files. The record has the fields that
  \<open>driver.c\<close> writes or reads: the reference count \<open>refcnt\<close> (an \<open>int\<close>: the file
  compares it with 0, increments and decrements it), the derived flag \<open>bctimer\<close> (one
  bit), the array \<open>states\<close> (a list whose length is the declared size of the array),
  the \<open>int\<close> \<open>state_count\<close> beside it, and \<open>cpumask\<close>, a pointer that may be null
  (\<open>None\<close>).\<close>

record cpuidle_driver =
  refcnt :: int
  bctimer :: bool
  states :: "cpuidle_state list"
  state_count :: int
  cpumask :: "cpumask option"

text \<open>The two build options of the file, and the constants and globals that it takes
  from headers which are not among the files, as parameters.\<close>

record config =
  CONFIG_CPU_IDLE_MULTIPLE_DRIVERS :: bool
  CONFIG_ARCH_HAS_CPU_RELAX :: bool
  nr_cpu_ids :: nat
  cpu_possible_mask :: cpumask
  CPUIDLE_FLAG_TIME_VALID :: "32 word"
  CPUIDLE_FLAG_TIMER_STOP :: "32 word"
  CPUIDLE_NAME_LEN :: nat
  CPUIDLE_DESC_LEN :: nat

datatype errno = EINVAL | ENODEV | EBUSY

text \<open>The \<open>int\<close> that \<open>__cpuidle_register_driver\<close> returns: \<open>OK\<close> is 0, \<open>ERR e\<close> is
  \<open>-e\<close>.\<close>

datatype retcode = OK | ERR errno

datatype clock_evt = CLOCK_EVT_NOTIFY_BROADCAST_ON | CLOCK_EVT_NOTIFY_BROADCAST_OFF

text \<open>
  The kernel state that the file touches: the driver objects by address, the per-CPU
  slots \<open>cpuidle_drivers\<close> (built with \<open>CONFIG_CPU_IDLE_MULTIPLE_DRIVERS\<close>) or the one
  slot \<open>cpuidle_curr_driver\<close> (built without), the calls of \<open>on_each_cpu_mask\<close> made
  so far, and the number of \<open>WARN_ON\<close> reports made so far.

  Modelled from the spec: \<open>cpuidle_disabled()\<close> is defined outside the files; it tells
  whether idle management is globally disabled, which is the field \<open>off\<close>.\<close>

record kstate =
  drivers :: "drv_ptr \<Rightarrow> cpuidle_driver"
  cpuidle_drivers :: "cpu \<Rightarrow> drv_ptr option"
  cpuidle_curr_driver :: "drv_ptr option"
  off :: bool
  bc_calls :: "(clock_evt \<times> cpumask) list"
  warnings :: nat

text \<open>The bounds of \<open>int\<close>, 32 bits wide.\<close>

definition INT_MAX :: int where
  "INT_MAX = 2147483647"

definition INT_MIN :: int where
  "INT_MIN = - 2147483648"

subsection \<open>Kernel primitives used by the file\<close>

text \<open>Modelled from the spec: the macro \<open>for_each_cpu\<close> of \<open>linux/cpumask.h\<close> is not
  among the files. It scans every unit of the mask in one fixed order: the CPUs below
  \<open>nr_cpu_ids\<close> whose bit is set, ascending.\<close>

definition for_each_cpu :: "config \<Rightarrow> cpumask \<Rightarrow> cpu list" where
  "for_each_cpu cfg msk = filter (\<lambda>cpu. cpu \<in> msk) [0..<nr_cpu_ids cfg]"

text \<open>Modelled from the spec: the macro \<open>WARN_ON\<close> is not among the files. Its value is
  its condition, and when the condition holds it reports the programming error. This
  is the report of a condition that holds: one more in the count.\<close>

definition WARN_ON :: "kstate \<Rightarrow> kstate" where
  "WARN_ON s = s\<lparr>warnings := Suc (warnings s)\<rparr>"

text \<open>Modelled from the spec: \<open>on_each_cpu_mask\<close> and \<open>clockevents_notify\<close> are not
  among the files. \<open>cpuidle_setup_broadcast_timer\<close> hands its argument and the number
  of the CPU it runs on to \<open>clockevents_notify\<close>, so the call
  \<open>on_each_cpu_mask(mask, cpuidle_setup_broadcast_timer, reason, 1)\<close> is the
  coordinator's \<open>enable(mask)\<close> or \<open>disable(mask)\<close>: it notifies every CPU of the mask
  and waits for all of them. The model records the call with its reason and its mask; a
  null mask is dereferenced.\<close>

definition on_each_cpu_mask :: "kstate \<Rightarrow> cpumask option \<Rightarrow> clock_evt \<Rightarrow> kstate option" where
  "on_each_cpu_mask s msk reason =
     (case msk of
        None \<Rightarrow> None
      | Some m \<Rightarrow> Some (s\<lparr>bc_calls := bc_calls s @ [(reason, m)]\<rparr>))"

text \<open>\<open>snprintf(buf, size, lit)\<close> of the C library, for a literal without conversions:
  the buffer receives the first \<open>size - 1\<close> characters of the literal; nothing is
  written when \<open>size\<close> is 0.\<close>

definition snprintf :: "string \<Rightarrow> nat \<Rightarrow> string \<Rightarrow> string" where
  "snprintf buf n lit = (if n = 0 then buf else take (n - 1) lit)"

subsection \<open>The association of CPUs with drivers\<close>

definition uu_cpuidle_get_cpu_driver :: "config \<Rightarrow> kstate \<Rightarrow> cpu \<Rightarrow> drv_ptr option" where
  "uu_cpuidle_get_cpu_driver cfg s cpu =
     (if CONFIG_CPU_IDLE_MULTIPLE_DRIVERS cfg then cpuidle_drivers s cpu
      else cpuidle_curr_driver s)"

text \<open>The loop of \<open>__cpuidle_unset_driver\<close> over the CPUs still to visit.\<close>

fun unset_loop :: "drv_ptr \<Rightarrow> cpu list \<Rightarrow> kstate \<Rightarrow> kstate" where
  "unset_loop drv [] s = s"
| "unset_loop drv (cpu # cpus) s =
     (if Some drv \<noteq> cpuidle_drivers s cpu then unset_loop drv cpus s
      else unset_loop drv cpus (s\<lparr>cpuidle_drivers := (cpuidle_drivers s)(cpu := None)\<rparr>))"

definition uu_cpuidle_unset_driver :: "config \<Rightarrow> kstate \<Rightarrow> drv_ptr \<Rightarrow> kstate option" where
  "uu_cpuidle_unset_driver cfg s drv =
     (if CONFIG_CPU_IDLE_MULTIPLE_DRIVERS cfg then
        (case cpumask (drivers s drv) of
           None \<Rightarrow> None
         | Some msk \<Rightarrow> Some (unset_loop drv (for_each_cpu cfg msk) s))
      else if Some drv = cpuidle_curr_driver s then Some (s\<lparr>cpuidle_curr_driver := None\<rparr>)
      else Some s)"

text \<open>The loop of \<open>__cpuidle_set_driver\<close> over the CPUs still to visit.\<close>

fun set_loop :: "config \<Rightarrow> drv_ptr \<Rightarrow> cpu list \<Rightarrow> kstate \<Rightarrow> (retcode \<times> kstate) option" where
  "set_loop cfg drv [] s = Some (OK, s)"
| "set_loop cfg drv (cpu # cpus) s =
     (if cpuidle_drivers s cpu \<noteq> None then
        (case uu_cpuidle_unset_driver cfg s drv of
           None \<Rightarrow> None
         | Some s' \<Rightarrow> Some (ERR EBUSY, s'))
      else set_loop cfg drv cpus (s\<lparr>cpuidle_drivers := (cpuidle_drivers s)(cpu \<mapsto> drv)\<rparr>))"

definition uu_cpuidle_set_driver :: "config \<Rightarrow> kstate \<Rightarrow> drv_ptr \<Rightarrow> (retcode \<times> kstate) option" where
  "uu_cpuidle_set_driver cfg s drv =
     (if CONFIG_CPU_IDLE_MULTIPLE_DRIVERS cfg then
        (case cpumask (drivers s drv) of
           None \<Rightarrow> None
         | Some msk \<Rightarrow> set_loop cfg drv (for_each_cpu cfg msk) s)
      else if cpuidle_curr_driver s \<noteq> None then Some (ERR EBUSY, s)
      else Some (OK, s\<lparr>cpuidle_curr_driver := Some drv\<rparr>))"

subsection \<open>Initialising a driver\<close>

text \<open>The loop of \<open>__cpuidle_driver_init\<close>, from index \<open>i\<close> down to 0: \<open>Some True\<close>
  when it leaves through \<open>break\<close>, \<open>Some False\<close> when it runs to its end.\<close>

function timer_stop_scan :: "config \<Rightarrow> cpuidle_state list \<Rightarrow> int \<Rightarrow> bool option" where
  "timer_stop_scan cfg sts i =
     (if 0 \<le> i then
        (if nat i < length sts then
           (if flags (sts ! nat i) AND CPUIDLE_FLAG_TIMER_STOP cfg \<noteq> 0 then Some True
            else timer_stop_scan cfg sts (i - 1))
         else None)
      else Some False)"
  by pat_completeness auto
termination
  by (relation "measure (\<lambda>(cfg, sts, i). nat (i + 1))") auto

declare timer_stop_scan.simps [simp del]

text \<open>The loop starts at \<open>state_count - 1\<close>. When \<open>state_count\<close> is \<open>INT_MIN\<close> that
  index is \<open>INT_MAX\<close>, which lies outside the array.\<close>

definition uu_cpuidle_driver_init :: "config \<Rightarrow> cpuidle_driver \<Rightarrow> cpuidle_driver option" where
  "uu_cpuidle_driver_init cfg drv =
     (let drv1 = drv\<lparr>refcnt := 0\<rparr>;
          drv2 = (if cpumask drv1 = None then drv1\<lparr>cpumask := Some (cpu_possible_mask cfg)\<rparr>
                  else drv1)
      in if state_count drv2 \<le> INT_MIN then None
         else (case timer_stop_scan cfg (states drv2) (state_count drv2 - 1) of
                 None \<Rightarrow> None
               | Some found \<Rightarrow> Some (if found then drv2\<lparr>bctimer := True\<rparr> else drv2)))"

text \<open>\<open>poll_idle_init\<close>: with \<open>CONFIG_ARCH_HAS_CPU_RELAX\<close> it overwrites entry 0 of the
  array, without it the body is empty.\<close>

definition poll_idle_init :: "config \<Rightarrow> cpuidle_driver \<Rightarrow> cpuidle_driver option" where
  "poll_idle_init cfg drv =
     (if CONFIG_ARCH_HAS_CPU_RELAX cfg then
        (case states drv of
           [] \<Rightarrow> None
         | state # rest \<Rightarrow>
             Some (drv\<lparr>states :=
               state\<lparr>name := snprintf (name state) (CPUIDLE_NAME_LEN cfg) ''POLL'',
                     desc := snprintf (desc state) (CPUIDLE_DESC_LEN cfg) ''CPUIDLE CORE POLL IDLE'',
                     exit_latency := 0,
                     target_residency := 0,
                     power_usage := - 1,
                     flags := CPUIDLE_FLAG_TIME_VALID cfg,
                     enter := poll_idle,
                     disabled := False\<rparr> # rest\<rparr>))
      else Some drv)"

subsection \<open>Registering and unregistering\<close>

definition uu_cpuidle_register_driver ::
  "config \<Rightarrow> kstate \<Rightarrow> drv_ptr option \<Rightarrow> (retcode \<times> kstate) option" where
  "uu_cpuidle_register_driver cfg s drv =
     (case drv of
        None \<Rightarrow> Some (ERR EINVAL, s)
      | Some p \<Rightarrow>
          if state_count (drivers s p) = 0 then Some (ERR EINVAL, s)
          else if off s then Some (ERR ENODEV, s)
          else
            (case uu_cpuidle_driver_init cfg (drivers s p) of
               None \<Rightarrow> None
             | Some d1 \<Rightarrow>
                 (case uu_cpuidle_set_driver cfg (s\<lparr>drivers := (drivers s)(p := d1)\<rparr>) p of
                    None \<Rightarrow> None
                  | Some (ret, s2) \<Rightarrow>
                      if ret \<noteq> OK then Some (ret, s2)
                      else
                        (case (if bctimer (drivers s2 p)
                               then on_each_cpu_mask s2 (cpumask (drivers s2 p))
                                      CLOCK_EVT_NOTIFY_BROADCAST_ON
                               else Some s2) of
                           None \<Rightarrow> None
                         | Some s3 \<Rightarrow>
                             (case poll_idle_init cfg (drivers s3 p) of
                                None \<Rightarrow> None
                              | Some d4 \<Rightarrow>
                                  Some (OK, s3\<lparr>drivers := (drivers s3)(p := d4)\<rparr>))))))"

text \<open>The caller of \<open>__cpuidle_unregister_driver\<close> passes a driver: the function
  dereferences the pointer at once.\<close>

definition uu_cpuidle_unregister_driver :: "config \<Rightarrow> kstate \<Rightarrow> drv_ptr \<Rightarrow> kstate option" where
  "uu_cpuidle_unregister_driver cfg s p =
     (if 0 < refcnt (drivers s p) then Some (WARN_ON s)
      else
        (case (if bctimer (drivers s p)
               then on_each_cpu_mask
                      (s\<lparr>drivers := (drivers s)(p := (drivers s p)\<lparr>bctimer := False\<rparr>)\<rparr>)
                      (cpumask (drivers s p)) CLOCK_EVT_NOTIFY_BROADCAST_OFF
               else Some s) of
           None \<Rightarrow> None
         | Some s1 \<Rightarrow> uu_cpuidle_unset_driver cfg s1 p))"

text \<open>The exported functions take the lock, call the function above and drop the lock.\<close>

definition cpuidle_register_driver ::
  "config \<Rightarrow> kstate \<Rightarrow> drv_ptr option \<Rightarrow> (retcode \<times> kstate) option" where
  "cpuidle_register_driver cfg s drv = uu_cpuidle_register_driver cfg s drv"

definition cpuidle_unregister_driver :: "config \<Rightarrow> kstate \<Rightarrow> drv_ptr \<Rightarrow> kstate option" where
  "cpuidle_unregister_driver cfg s drv = uu_cpuidle_unregister_driver cfg s drv"

subsection \<open>Lookup and reference counting\<close>

text \<open>\<open>cpuidle_get_driver\<close> reads the slot of the CPU it runs on (\<open>get_cpu()\<close>), given
  here as the argument \<open>cpu\<close>.\<close>

definition cpuidle_get_driver :: "config \<Rightarrow> kstate \<Rightarrow> cpu \<Rightarrow> drv_ptr option" where
  "cpuidle_get_driver cfg s cpu = uu_cpuidle_get_cpu_driver cfg s cpu"

text \<open>\<open>cpuidle_get_cpu_driver(dev)\<close>: \<open>dev\<close> is null or a device with its \<open>cpu\<close> field.\<close>

definition cpuidle_get_cpu_driver :: "config \<Rightarrow> kstate \<Rightarrow> cpu option \<Rightarrow> drv_ptr option" where
  "cpuidle_get_cpu_driver cfg s dev =
     (case dev of None \<Rightarrow> None | Some dev_cpu \<Rightarrow> uu_cpuidle_get_cpu_driver cfg s dev_cpu)"

text \<open>\<open>cpuidle_driver_ref\<close> and \<open>cpuidle_driver_unref\<close> take no argument: they work on
  the driver of the CPU they run on. \<open>refcnt++\<close> wraps from \<open>INT_MAX\<close> to \<open>INT_MIN\<close>;
  \<open>refcnt--\<close> runs on a positive count only.\<close>

definition cpuidle_driver_ref ::
  "config \<Rightarrow> kstate \<Rightarrow> cpu \<Rightarrow> (drv_ptr option \<times> kstate) option" where
  "cpuidle_driver_ref cfg s cpu =
     (case cpuidle_get_driver cfg s cpu of
        None \<Rightarrow> Some (None, s)
      | Some p \<Rightarrow>
          Some (Some p,
            s\<lparr>drivers := (drivers s)(p := (drivers s p)
               \<lparr>refcnt := (if refcnt (drivers s p) = INT_MAX then INT_MIN
                           else refcnt (drivers s p) + 1)\<rparr>)\<rparr>))"

definition cpuidle_driver_unref :: "config \<Rightarrow> kstate \<Rightarrow> cpu \<Rightarrow> kstate" where
  "cpuidle_driver_unref cfg s cpu =
     (case cpuidle_get_driver cfg s cpu of
        None \<Rightarrow> s
      | Some p \<Rightarrow>
          if refcnt (drivers s p) \<le> 0 then WARN_ON s
          else s\<lparr>drivers := (drivers s)(p := (drivers s p)\<lparr>refcnt := refcnt (drivers s p) - 1\<rparr>)\<rparr>)"

subsection \<open>Sequences of registry operations\<close>

text \<open>The calls that the rest of the kernel makes into the file. \<open>Acquire\<close> and
  \<open>Release\<close> carry the CPU on which \<open>cpuidle_driver_ref\<close> and
  \<open>cpuidle_driver_unref\<close> run.\<close>

datatype op = Register "drv_ptr option" | Unregister drv_ptr | Acquire cpu | Release cpu

fun step :: "config \<Rightarrow> kstate \<Rightarrow> op \<Rightarrow> kstate option" where
  "step cfg s (Register drv) = map_option snd (cpuidle_register_driver cfg s drv)"
| "step cfg s (Unregister drv) = cpuidle_unregister_driver cfg s drv"
| "step cfg s (Acquire cpu) = map_option snd (cpuidle_driver_ref cfg s cpu)"
| "step cfg s (Release cpu) = Some (cpuidle_driver_unref cfg s cpu)"

fun run :: "config \<Rightarrow> kstate \<Rightarrow> op list \<Rightarrow> kstate option" where
  "run cfg s [] = Some s"
| "run cfg s (x # xs) = (case step cfg s x of None \<Rightarrow> None | Some s' \<Rightarrow> run cfg s' xs)"

text \<open>An operation that is neither \<open>register\<close> nor \<open>unregister\<close> of the driver
  \<open>d\<close>.\<close>

fun foreign :: "drv_ptr \<Rightarrow> op \<Rightarrow> bool" where
  "foreign d (Register drv) = (drv \<noteq> Some d)"
| "foreign d (Unregister drv) = (drv \<noteq> d)"
| "foreign d (Acquire cpu) = True"
| "foreign d (Release cpu) = True"



subsection \<open>Vocabulary of the properties\<close>

text \<open>A state carries \<open>TIMER_STOP\<close> when the test of \<open>__cpuidle_driver_init\<close>
  succeeds on it.\<close>

definition carries_timer_stop :: "config \<Rightarrow> cpuidle_state \<Rightarrow> bool" where
  "carries_timer_stop cfg st = (flags st AND CPUIDLE_FLAG_TIMER_STOP cfg \<noteq> 0)"

text \<open>The state table of a driver: the first \<open>state_count\<close> entries of the array.\<close>

definition state_table :: "cpuidle_driver \<Rightarrow> cpuidle_state list" where
  "state_table drv = take (nat (state_count drv)) (states drv)"

definition needs_timer_stop :: "config \<Rightarrow> cpuidle_driver \<Rightarrow> bool" where
  "needs_timer_stop cfg drv = list_ex (carries_timer_stop cfg) (state_table drv)"

text \<open>A driver that keeps to the data model of the spec. Its flag \<open>bctimer\<close> is derived:
  it is not set unless a state of the table carries \<open>TIMER_STOP\<close>, so a driver that its
  producer hands over with the flag clear qualifies. And index 0 of the table is the
  registry's: in a build where \<open>poll_idle_init\<close> overwrites that entry, the entry does
  not carry \<open>TIMER_STOP\<close>.\<close>

definition keeps_convention :: "config \<Rightarrow> cpuidle_driver \<Rightarrow> bool" where
  "keeps_convention cfg drv =
     ((bctimer drv \<longrightarrow> needs_timer_stop cfg drv) \<and>
      (CONFIG_ARCH_HAS_CPU_RELAX cfg \<longrightarrow>
         \<not> list_ex (carries_timer_stop cfg) (take 1 (state_table drv))))"

text \<open>The mask a driver registers with: its own, or all possible CPUs when the pointer
  is null.\<close>

definition mask_of :: "config \<Rightarrow> cpuidle_driver \<Rightarrow> cpumask" where
  "mask_of cfg drv = (case cpumask drv of None \<Rightarrow> cpu_possible_mask cfg | Some m \<Rightarrow> m)"

text \<open>The units of a driver: the CPUs that \<open>for_each_cpu\<close> visits in its mask.\<close>

definition units :: "config \<Rightarrow> cpuidle_driver \<Rightarrow> cpu set" where
  "units cfg drv = set (for_each_cpu cfg (mask_of cfg drv))"

text \<open>The units associated with the driver at address \<open>d\<close>.\<close>

definition owned :: "config \<Rightarrow> kstate \<Rightarrow> drv_ptr \<Rightarrow> cpu set" where
  "owned cfg s d = {c. c < nr_cpu_ids cfg \<and> uu_cpuidle_get_cpu_driver cfg s c = Some d}"

text \<open>The loop of \<open>__cpuidle_driver_init\<close> stays inside the array: \<open>state_count\<close> is
  not beyond its size, and \<open>state_count - 1\<close> does not wrap around.\<close>

definition in_bounds :: "cpuidle_driver \<Rightarrow> bool" where
  "in_bounds drv = (INT_MIN < state_count drv \<and> state_count drv \<le> int (length (states drv)))"

text \<open>What \<open>__cpuidle_driver_init\<close> leaves in a driver.\<close>

definition initialised :: "config \<Rightarrow> cpuidle_driver \<Rightarrow> cpuidle_driver" where
  "initialised cfg drv =
     drv\<lparr>refcnt := 0, cpumask := Some (mask_of cfg drv),
         bctimer := bctimer drv \<or> needs_timer_stop cfg drv\<rparr>"

text \<open>A registered driver: its mask pointer is set and every unit of the mask is
  associated with it.\<close>

definition registered :: "config \<Rightarrow> kstate \<Rightarrow> drv_ptr \<Rightarrow> bool" where
  "registered cfg s d =
     (cpumask (drivers s d) \<noteq> None \<and> units cfg (drivers s d) \<subseteq> owned cfg s d)"

text \<open>Nothing stands in the way of the driver at \<open>d\<close>: with per-CPU slots every
  unit of its mask is free, with the one global slot that slot is free.\<close>

definition vacant :: "config \<Rightarrow> kstate \<Rightarrow> drv_ptr \<Rightarrow> bool" where
  "vacant cfg s d =
     (if CONFIG_CPU_IDLE_MULTIPLE_DRIVERS cfg
      then \<forall>c\<in>units cfg (drivers s d). cpuidle_drivers s c = None
      else cpuidle_curr_driver s = None)"

text \<open>The state in which the driver at \<open>d\<close> has been written into its slots.\<close>

definition claimed :: "config \<Rightarrow> kstate \<Rightarrow> drv_ptr \<Rightarrow> kstate" where
  "claimed cfg s d =
     (if CONFIG_CPU_IDLE_MULTIPLE_DRIVERS cfg
      then s\<lparr>cpuidle_drivers :=
             (\<lambda>c. if c \<in> units cfg (drivers s d) then Some d else cpuidle_drivers s c)\<rparr>
      else s\<lparr>cpuidle_curr_driver := Some d\<rparr>)"

text \<open>The state in which the slots of the driver at \<open>d\<close> that point to it have been
  cleared.\<close>

definition released :: "config \<Rightarrow> kstate \<Rightarrow> drv_ptr \<Rightarrow> kstate" where
  "released cfg s d =
     (if CONFIG_CPU_IDLE_MULTIPLE_DRIVERS cfg
      then s\<lparr>cpuidle_drivers :=
             (\<lambda>c. if c \<in> units cfg (drivers s d) \<and> cpuidle_drivers s c = Some d then None
                  else cpuidle_drivers s c)\<rparr>
      else if cpuidle_curr_driver s = Some d then s\<lparr>cpuidle_curr_driver := None\<rparr> else s)"

text \<open>Exclusive ownership with per-CPU slots: a driver holds no unit, or exactly the
  units of its mask.\<close>

definition exclusive :: "config \<Rightarrow> kstate \<Rightarrow> bool" where
  "exclusive cfg s =
     (\<forall>d. owned cfg s d = {} \<or>
          (cpumask (drivers s d) \<noteq> None \<and> owned cfg s d = units cfg (drivers s d)))"

subsection \<open>A machine with three CPUs and three drivers\<close>

definition cfg_percpu :: config where
  "cfg_percpu = \<lparr>CONFIG_CPU_IDLE_MULTIPLE_DRIVERS = True, CONFIG_ARCH_HAS_CPU_RELAX = True,
     nr_cpu_ids = 3, cpu_possible_mask = {0, 1, 2},
     CPUIDLE_FLAG_TIME_VALID = 1, CPUIDLE_FLAG_TIMER_STOP = 4,
     CPUIDLE_NAME_LEN = 16, CPUIDLE_DESC_LEN = 32\<rparr>"

definition idle_state :: "string \<Rightarrow> 32 word \<Rightarrow> cpuidle_state" where
  "idle_state n f = \<lparr>name = n, desc = n, flags = f, exit_latency = 10, power_usage = 5,
     target_residency = 20, disabled = False, enter = driver_fn 0\<rparr>"

text \<open>The state that \<open>poll_idle_init\<close> writes with the constants of \<open>cfg_percpu\<close>.\<close>

definition poll_state :: cpuidle_state where
  "poll_state = \<lparr>name = ''POLL'', desc = ''CPUIDLE CORE POLL IDLE'', flags = 1,
     exit_latency = 0, power_usage = - 1, target_residency = 0, disabled = False,
     enter = poll_idle\<rparr>"

definition drv_none :: cpuidle_driver where
  "drv_none = \<lparr>refcnt = 0, bctimer = False, states = [], state_count = 0, cpumask = None\<rparr>"

text \<open>Driver A at address 10 claims CPUs 1 and 2; its second state stops the timer.\<close>

definition drv_A :: cpuidle_driver where
  "drv_A = \<lparr>refcnt = 0, bctimer = False,
     states = [idle_state ''A0'' 1, idle_state ''A1'' 5],
     state_count = 2, cpumask = Some {1, 2}\<rparr>"

text \<open>Driver B at address 20 claims CPUs 0 and 1; its second state stops the timer.\<close>

definition drv_B :: cpuidle_driver where
  "drv_B = \<lparr>refcnt = 0, bctimer = False,
     states = [idle_state ''B0'' 1, idle_state ''B1'' 5],
     state_count = 2, cpumask = Some {0, 1}\<rparr>"

text \<open>Driver C at address 30 leaves its mask null; its only state stops the timer.\<close>

definition drv_C :: cpuidle_driver where
  "drv_C = \<lparr>refcnt = 0, bctimer = False, states = [idle_state ''C0'' 4],
     state_count = 1, cpumask = None\<rparr>"

definition boot :: kstate where
  "boot = \<lparr>drivers = (\<lambda>_. drv_none)(10 := drv_A, 20 := drv_B, 30 := drv_C),
     cpuidle_drivers = (\<lambda>_. None), cpuidle_curr_driver = None, off = False,
     bc_calls = [], warnings = 0\<rparr>"

text \<open>Driver A as a successful registration leaves it.\<close>

definition drv_A_reg :: cpuidle_driver where
  "drv_A_reg = drv_A\<lparr>bctimer := True, states := [poll_state, idle_state ''A1'' 5]\<rparr>"

text \<open>The state after \<open>register(A)\<close> at boot, with per-CPU slots.\<close>

definition after_A :: kstate where
  "after_A = boot\<lparr>drivers := (drivers boot)(10 := drv_A_reg),
     cpuidle_drivers := (\<lambda>_. None)(1 \<mapsto> 10, 2 \<mapsto> 10),
     bc_calls := [(CLOCK_EVT_NOTIFY_BROADCAST_ON, {1, 2})]\<rparr>"

text \<open>The same state with one reference to A outstanding.\<close>

definition held_A :: kstate where
  "held_A = after_A\<lparr>drivers := (drivers after_A)(10 := drv_A_reg\<lparr>refcnt := 1\<rparr>)\<rparr>"

text \<open>Driver C as a successful registration leaves it: the polling state has replaced
  its only state.\<close>

definition drv_C_reg :: cpuidle_driver where
  "drv_C_reg = drv_C\<lparr>cpumask := Some {0, 1, 2}, bctimer := True, states := [poll_state]\<rparr>"

text \<open>The states after \<open>register(C)\<close> at boot, after a second \<open>register(C)\<close>, and
  after a third, with per-CPU slots.\<close>

definition after_C :: kstate where
  "after_C = boot\<lparr>drivers := (drivers boot)(30 := drv_C_reg),
     cpuidle_drivers := (\<lambda>_. None)(0 \<mapsto> 30, 1 \<mapsto> 30, 2 \<mapsto> 30),
     bc_calls := [(CLOCK_EVT_NOTIFY_BROADCAST_ON, {0, 1, 2})]\<rparr>"

definition erased_C :: kstate where
  "erased_C = after_C\<lparr>cpuidle_drivers := (\<lambda>_. None)\<rparr>"

definition again_C :: kstate where
  "again_C = after_C\<lparr>bc_calls := [(CLOCK_EVT_NOTIFY_BROADCAST_ON, {0, 1, 2}),
                                 (CLOCK_EVT_NOTIFY_BROADCAST_ON, {0, 1, 2})]\<rparr>"

text \<open>The state after \<open>register(C)\<close> has failed while A holds CPUs 1 and 2.\<close>

definition busy_C :: kstate where
  "busy_C = after_A\<lparr>drivers := (drivers after_A)
     (30 := drv_C\<lparr>cpumask := Some {0, 1, 2}, bctimer := True\<rparr>)\<rparr>"

text \<open>The state after \<open>unregister(A)\<close> in \<open>after_A\<close>.\<close>

definition gone_A :: kstate where
  "gone_A = boot\<lparr>drivers := (drivers boot)(10 := drv_A_reg\<lparr>bctimer := False\<rparr>),
     bc_calls := [(CLOCK_EVT_NOTIFY_BROADCAST_ON, {1, 2}),
                  (CLOCK_EVT_NOTIFY_BROADCAST_OFF, {1, 2})]\<rparr>"

text \<open>A is unregistered and registered again: the state after \<open>register(A)\<close> in
  \<open>gone_A\<close>.\<close>

definition back_A :: kstate where
  "back_A = after_A\<lparr>bc_calls := [(CLOCK_EVT_NOTIFY_BROADCAST_ON, {1, 2}),
                                (CLOCK_EVT_NOTIFY_BROADCAST_OFF, {1, 2}),
                                (CLOCK_EVT_NOTIFY_BROADCAST_ON, {1, 2})]\<rparr>"

text \<open>The state after a further \<open>register(A)\<close> in \<open>back_A\<close>, which is refused and clears
  the slots of A.\<close>

definition erased_A :: kstate where
  "erased_A = back_A\<lparr>cpuidle_drivers := (\<lambda>_. None)\<rparr>"

text \<open>The state \<open>after_A\<close> with the reference count of A wrapped around.\<close>

definition wrapped_A :: kstate where
  "wrapped_A = after_A\<lparr>drivers := (drivers after_A)(10 := drv_A_reg\<lparr>refcnt := INT_MIN\<rparr>)\<rparr>"

text \<open>Driver E at address 40 has a mask without a CPU, and one state, which does not stop
  the timer.\<close>

definition drv_E :: cpuidle_driver where
  "drv_E = \<lparr>refcnt = 0, bctimer = False, states = [idle_state ''E0'' 1],
     state_count = 1, cpumask = Some {}\<rparr>"

text \<open>The machine at boot with driver E, and the state after \<open>register(E)\<close> there.\<close>

definition boot_E :: kstate where
  "boot_E = boot\<lparr>drivers := (drivers boot)(40 := drv_E)\<rparr>"

definition after_E :: kstate where
  "after_E = boot_E\<lparr>drivers := (drivers boot_E)(40 := drv_E\<lparr>states := [poll_state]\<rparr>)\<rparr>"

section \<open>Facts about the functions\<close>

subsection \<open>The scan for \<open>TIMER_STOP\<close>\<close>

text \<open>Inside the array the scan finds out whether one of the entries up to index \<open>i\<close>
  carries \<open>TIMER_STOP\<close>; it leaves the array exactly when \<open>i\<close> is not below its
  length.\<close>

lemma timer_stop_scan_eq:
  "i < int (length sts) \<Longrightarrow>
   timer_stop_scan cfg sts i = Some (list_ex (carries_timer_stop cfg) (take (nat (i + 1)) sts))"
proof (induction cfg sts i rule: timer_stop_scan.induct)
  case (1 cfg sts i)
  show ?case
  proof (cases "0 \<le> i")
    case False
    then show ?thesis by (simp add: timer_stop_scan.simps)
  next
    case True
    with 1(2) have inb: "nat i < length sts" by linarith
    from True have tk: "take (nat (i + 1)) sts = take (nat i) sts @ [sts ! nat i]"
      using inb by (simp add: nat_add_distrib take_Suc_conv_app_nth)
    show ?thesis
    proof (cases "carries_timer_stop cfg (sts ! nat i)")
      case True
      then have "flags (sts ! nat i) AND CPUIDLE_FLAG_TIMER_STOP cfg \<noteq> 0"
        by (simp add: carries_timer_stop_def)
      then show ?thesis using \<open>0 \<le> i\<close> inb tk True
        by (subst timer_stop_scan.simps) simp
    next
      case False
      then have nc: "flags (sts ! nat i) AND CPUIDLE_FLAG_TIMER_STOP cfg = 0"
        by (simp add: carries_timer_stop_def)
      have "timer_stop_scan cfg sts (i - 1) =
            Some (list_ex (carries_timer_stop cfg) (take (nat (i - 1 + 1)) sts))"
        using 1(1) \<open>0 \<le> i\<close> inb nc 1(2) by simp
      then show ?thesis using \<open>0 \<le> i\<close> inb tk False nc
        by (subst timer_stop_scan.simps) simp
    qed
  qed
qed

lemma timer_stop_scan_Some: "timer_stop_scan cfg sts i = Some b \<Longrightarrow> i < int (length sts)"
  by (subst (asm) timer_stop_scan.simps) (auto split: if_splits)

lemma timer_stop_scan_None: "timer_stop_scan cfg sts i = None \<Longrightarrow> int (length sts) \<le> i"
  using timer_stop_scan_eq [of i sts cfg] by fastforce

subsection \<open>\<open>__cpuidle_driver_init\<close>\<close>

text \<open>The function is defined exactly on the drivers that are \<open>in_bounds\<close>, and there
  it sets the reference count to 0, replaces a null mask and adds to the flag.\<close>

lemma driver_init_in_bounds:
  "in_bounds drv \<Longrightarrow> uu_cpuidle_driver_init cfg drv = Some (initialised cfg drv)"
  by (cases "cpumask drv")
     (auto simp: uu_cpuidle_driver_init_def Let_def timer_stop_scan_eq needs_timer_stop_def
        state_table_def in_bounds_def mask_of_def initialised_def)

lemma driver_init_defined: "uu_cpuidle_driver_init cfg drv = Some d1 \<Longrightarrow> in_bounds drv"
  by (auto simp: uu_cpuidle_driver_init_def Let_def in_bounds_def
      split: if_splits option.splits dest: timer_stop_scan_Some)

lemma driver_init_Some:
  "uu_cpuidle_driver_init cfg drv = Some d1 \<longleftrightarrow> in_bounds drv \<and> d1 = initialised cfg drv"
  using driver_init_in_bounds [of drv cfg] driver_init_defined [of cfg drv d1] by auto

lemma driver_init_None: "uu_cpuidle_driver_init cfg drv = None \<longleftrightarrow> \<not> in_bounds drv"
  using driver_init_Some [of cfg drv] by (cases "uu_cpuidle_driver_init cfg drv") auto

lemma initialised_simps [simp]:
  "refcnt (initialised cfg drv) = 0"
  "cpumask (initialised cfg drv) = Some (mask_of cfg drv)"
  "bctimer (initialised cfg drv) = (bctimer drv \<or> needs_timer_stop cfg drv)"
  "states (initialised cfg drv) = states drv"
  "state_count (initialised cfg drv) = state_count drv"
  by (simp_all add: initialised_def)

lemma mask_of_initialised [simp]: "mask_of cfg (initialised cfg drv) = mask_of cfg drv"
  by (simp add: mask_of_def)

lemma units_initialised [simp]: "units cfg (initialised cfg drv) = units cfg drv"
  by (simp add: units_def)

subsection \<open>The two loops over a mask\<close>

lemma for_each_cpu_set: "set (for_each_cpu cfg m) = {c. c < nr_cpu_ids cfg \<and> c \<in> m}"
  by (auto simp: for_each_cpu_def)

lemma for_each_cpu_distinct: "distinct (for_each_cpu cfg m)"
  by (simp add: for_each_cpu_def)

lemma units_bound: "c \<in> units cfg drv \<Longrightarrow> c < nr_cpu_ids cfg"
  by (simp add: units_def for_each_cpu_set)

lemma units_Some: "cpumask drv = Some m \<Longrightarrow> units cfg drv = set (for_each_cpu cfg m)"
  by (simp add: units_def mask_of_def)

text \<open>The loop of \<open>__cpuidle_unset_driver\<close> clears the visited slots that point to the
  driver, and no other.\<close>

lemma unset_loop_eq:
  "unset_loop d cs s =
     s\<lparr>cpuidle_drivers :=
         (\<lambda>c. if c \<in> set cs \<and> cpuidle_drivers s c = Some d then None else cpuidle_drivers s c)\<rparr>"
proof (induction cs arbitrary: s)
  case Nil
  then show ?case by simp
next
  case (Cons a cs)
  show ?case
  proof (cases "Some d = cpuidle_drivers s a")
    case False
    have "(\<lambda>c. if c \<in> set cs \<and> cpuidle_drivers s c = Some d then None else cpuidle_drivers s c) =
          (\<lambda>c. if c \<in> set (a # cs) \<and> cpuidle_drivers s c = Some d then None else cpuidle_drivers s c)"
      using False by (auto simp: fun_eq_iff)
    then show ?thesis using False Cons.IH [of s] by simp
  next
    case True
    let ?s = "s\<lparr>cpuidle_drivers := (cpuidle_drivers s)(a := None)\<rparr>"
    have "(\<lambda>c. if c \<in> set cs \<and> cpuidle_drivers ?s c = Some d then None else cpuidle_drivers ?s c) =
          (\<lambda>c. if c \<in> set (a # cs) \<and> cpuidle_drivers s c = Some d then None else cpuidle_drivers s c)"
      using True by (auto simp: fun_eq_iff)
    then show ?thesis using True Cons.IH [of ?s] by simp
  qed
qed

lemma unset_driver_eq:
  "uu_cpuidle_unset_driver cfg s d =
     (if CONFIG_CPU_IDLE_MULTIPLE_DRIVERS cfg \<and> cpumask (drivers s d) = None then None
      else Some (released cfg s d))"
  by (auto simp: uu_cpuidle_unset_driver_def released_def unset_loop_eq units_Some)

text \<open>The loop of \<open>__cpuidle_set_driver\<close>, entered after the slots \<open>P\<close> have been
  written: when a slot still to visit is taken, the result is the state \<open>s0\<close> from
  before the first write, with the slots that pointed to the driver cleared.\<close>

lemma set_loop_multi:
  assumes multi: "CONFIG_CPU_IDLE_MULTIPLE_DRIVERS cfg"
    and msk: "cpumask (drivers s0 d) = Some m"
  shows "distinct cs \<Longrightarrow> set cs \<subseteq> set (for_each_cpu cfg m) \<Longrightarrow> P \<inter> set cs = {} \<Longrightarrow>
         P \<subseteq> set (for_each_cpu cfg m) \<Longrightarrow> \<forall>c\<in>P. cpuidle_drivers s0 c = None \<Longrightarrow>
         set_loop cfg d cs
           (s0\<lparr>cpuidle_drivers := (\<lambda>c. if c \<in> P then Some d else cpuidle_drivers s0 c)\<rparr>) =
         (if \<forall>c\<in>set cs. cpuidle_drivers s0 c = None
          then Some (OK, s0\<lparr>cpuidle_drivers :=
                          (\<lambda>c. if c \<in> P \<union> set cs then Some d else cpuidle_drivers s0 c)\<rparr>)
          else Some (ERR EBUSY, unset_loop d (for_each_cpu cfg m) s0))"
proof (induction cs arbitrary: P)
  case Nil
  then show ?case by simp
next
  case (Cons a cs)
  let ?s = "s0\<lparr>cpuidle_drivers := (\<lambda>c. if c \<in> P then Some d else cpuidle_drivers s0 c)\<rparr>"
  have aP: "a \<notin> P" using Cons.prems by auto
  show ?case
  proof (cases "cpuidle_drivers s0 a = None")
    case False
    have "(\<lambda>c. if c \<in> set (for_each_cpu cfg m) \<and> cpuidle_drivers ?s c = Some d then None
               else cpuidle_drivers ?s c) =
          (\<lambda>c. if c \<in> set (for_each_cpu cfg m) \<and> cpuidle_drivers s0 c = Some d then None
               else cpuidle_drivers s0 c)"
      using Cons.prems(4,5) by (auto simp: fun_eq_iff)
    then have "unset_loop d (for_each_cpu cfg m) ?s = unset_loop d (for_each_cpu cfg m) s0"
      by (simp add: unset_loop_eq)
    then show ?thesis using False aP multi msk
      by (simp add: uu_cpuidle_unset_driver_def)
  next
    case True
    have upd: "?s\<lparr>cpuidle_drivers := (cpuidle_drivers ?s)(a \<mapsto> d)\<rparr> =
               s0\<lparr>cpuidle_drivers := (\<lambda>c. if c \<in> insert a P then Some d else cpuidle_drivers s0 c)\<rparr>"
      by (auto simp: fun_eq_iff)
    have IH: "set_loop cfg d cs
           (s0\<lparr>cpuidle_drivers := (\<lambda>c. if c \<in> insert a P then Some d else cpuidle_drivers s0 c)\<rparr>) =
         (if \<forall>c\<in>set cs. cpuidle_drivers s0 c = None
          then Some (OK, s0\<lparr>cpuidle_drivers :=
                          (\<lambda>c. if c \<in> insert a P \<union> set cs then Some d else cpuidle_drivers s0 c)\<rparr>)
          else Some (ERR EBUSY, unset_loop d (for_each_cpu cfg m) s0))"
      using Cons.prems True by (intro Cons.IH) auto
    have "set_loop cfg d (a # cs) ?s =
          set_loop cfg d cs (?s\<lparr>cpuidle_drivers := (cpuidle_drivers ?s)(a \<mapsto> d)\<rparr>)"
      using True aP by simp
    also have "\<dots> = (if \<forall>c\<in>set cs. cpuidle_drivers s0 c = None
          then Some (OK, s0\<lparr>cpuidle_drivers :=
                          (\<lambda>c. if c \<in> insert a P \<union> set cs then Some d else cpuidle_drivers s0 c)\<rparr>)
          else Some (ERR EBUSY, unset_loop d (for_each_cpu cfg m) s0))"
      by (simp only: upd IH)
    finally show ?thesis using True by simp
  qed
qed

lemma set_driver_eq:
  "uu_cpuidle_set_driver cfg s d =
     (if CONFIG_CPU_IDLE_MULTIPLE_DRIVERS cfg \<and> cpumask (drivers s d) = None then None
      else if vacant cfg s d then Some (OK, claimed cfg s d)
      else Some (ERR EBUSY, if CONFIG_CPU_IDLE_MULTIPLE_DRIVERS cfg then released cfg s d else s))"
proof (cases "CONFIG_CPU_IDLE_MULTIPLE_DRIVERS cfg")
  case False
  then show ?thesis
    by (simp add: uu_cpuidle_set_driver_def vacant_def claimed_def)
next
  case True
  show ?thesis
  proof (cases "cpumask (drivers s d)")
    case None
    then show ?thesis using True by (simp add: uu_cpuidle_set_driver_def)
  next
    case (Some m)
    have "set_loop cfg d (for_each_cpu cfg m)
           (s\<lparr>cpuidle_drivers := (\<lambda>c. if c \<in> {} then Some d else cpuidle_drivers s c)\<rparr>) =
         (if \<forall>c\<in>set (for_each_cpu cfg m). cpuidle_drivers s c = None
          then Some (OK, s\<lparr>cpuidle_drivers :=
                  (\<lambda>c. if c \<in> {} \<union> set (for_each_cpu cfg m) then Some d else cpuidle_drivers s c)\<rparr>)
          else Some (ERR EBUSY, unset_loop d (for_each_cpu cfg m) s))"
      by (rule set_loop_multi [OF True Some]) (simp_all add: for_each_cpu_distinct)
    then show ?thesis using True Some
      by (simp add: uu_cpuidle_set_driver_def unset_loop_eq vacant_def claimed_def released_def
          units_Some)
  qed
qed

subsection \<open>\<open>__cpuidle_register_driver\<close> and \<open>__cpuidle_unregister_driver\<close> in closed form\<close>

lemma vacant_store [simp]:
  "vacant cfg (s\<lparr>drivers := (drivers s)(p := initialised cfg (drivers s p))\<rparr>) p = vacant cfg s p"
  by (simp add: vacant_def)

lemma register_eq:
  "uu_cpuidle_register_driver cfg s (Some p) =
     (if state_count (drivers s p) = 0 then Some (ERR EINVAL, s)
      else if off s then Some (ERR ENODEV, s)
      else if \<not> in_bounds (drivers s p) then None
      else if \<not> vacant cfg s p then
        Some (ERR EBUSY,
          if CONFIG_CPU_IDLE_MULTIPLE_DRIVERS cfg
          then released cfg (s\<lparr>drivers := (drivers s)(p := initialised cfg (drivers s p))\<rparr>) p
          else s\<lparr>drivers := (drivers s)(p := initialised cfg (drivers s p))\<rparr>)
      else
        (case poll_idle_init cfg (initialised cfg (drivers s p)) of
           None \<Rightarrow> None
         | Some d4 \<Rightarrow>
             Some (OK,
               (claimed cfg (s\<lparr>drivers := (drivers s)(p := initialised cfg (drivers s p))\<rparr>) p)
                 \<lparr>drivers := (drivers s)(p := d4),
                  bc_calls := bc_calls s @
                    (if bctimer (drivers s p) \<or> needs_timer_stop cfg (drivers s p)
                     then [(CLOCK_EVT_NOTIFY_BROADCAST_ON, mask_of cfg (drivers s p))]
                     else [])\<rparr>)))"
proof (cases "in_bounds (drivers s p)")
  case False
  then show ?thesis
    by (simp add: uu_cpuidle_register_driver_def driver_init_None [THEN iffD2])
next
  case True
  let ?s1 = "s\<lparr>drivers := (drivers s)(p := initialised cfg (drivers s p))\<rparr>"
  have m: "cpumask (drivers ?s1 p) \<noteq> None" by simp
  show ?thesis
  proof (cases "vacant cfg s p")
    case False
    then show ?thesis using True m
      by (simp add: uu_cpuidle_register_driver_def driver_init_in_bounds set_driver_eq)
  next
    case vac: True
    have c: "drivers (claimed cfg ?s1 p) p = initialised cfg (drivers s p)"
      "bc_calls (claimed cfg ?s1 p) = bc_calls s"
      "drivers (claimed cfg ?s1 p) = (drivers s)(p := initialised cfg (drivers s p))"
      by (simp_all add: claimed_def)
    show ?thesis using True vac m
      by (simp add: uu_cpuidle_register_driver_def driver_init_in_bounds set_driver_eq c
          on_each_cpu_mask_def split: option.splits)
  qed
qed

lemma register_null: "uu_cpuidle_register_driver cfg s None = Some (ERR EINVAL, s)"
  by (simp add: uu_cpuidle_register_driver_def)

lemma unregister_eq:
  "uu_cpuidle_unregister_driver cfg s p =
     (if 0 < refcnt (drivers s p) then Some (s\<lparr>warnings := Suc (warnings s)\<rparr>)
      else if cpumask (drivers s p) = None \<and>
              (bctimer (drivers s p) \<or> CONFIG_CPU_IDLE_MULTIPLE_DRIVERS cfg) then None
      else if bctimer (drivers s p) then
        Some (released cfg
          (s\<lparr>drivers := (drivers s)(p := (drivers s p)\<lparr>bctimer := False\<rparr>),
             bc_calls := bc_calls s @
               [(CLOCK_EVT_NOTIFY_BROADCAST_OFF, mask_of cfg (drivers s p))]\<rparr>) p)
      else Some (released cfg s p))"
  by (auto simp: uu_cpuidle_unregister_driver_def WARN_ON_def on_each_cpu_mask_def
      unset_driver_eq mask_of_def split: option.splits)

lemma get_released:
  "uu_cpuidle_get_cpu_driver cfg (released cfg s d) c =
     (if (CONFIG_CPU_IDLE_MULTIPLE_DRIVERS cfg \<longrightarrow> c \<in> units cfg (drivers s d)) \<and>
         uu_cpuidle_get_cpu_driver cfg s c = Some d
      then None else uu_cpuidle_get_cpu_driver cfg s c)"
  by (simp add: released_def uu_cpuidle_get_cpu_driver_def)

lemma get_claimed:
  "uu_cpuidle_get_cpu_driver cfg (claimed cfg s d) c =
     (if CONFIG_CPU_IDLE_MULTIPLE_DRIVERS cfg \<longrightarrow> c \<in> units cfg (drivers s d)
      then Some d else uu_cpuidle_get_cpu_driver cfg s c)"
  by (simp add: claimed_def uu_cpuidle_get_cpu_driver_def)

lemma get_frame [simp]:
  "uu_cpuidle_get_cpu_driver cfg (s\<lparr>drivers := h\<rparr>) c = uu_cpuidle_get_cpu_driver cfg s c"
  "uu_cpuidle_get_cpu_driver cfg (s\<lparr>bc_calls := l\<rparr>) c = uu_cpuidle_get_cpu_driver cfg s c"
  "uu_cpuidle_get_cpu_driver cfg (s\<lparr>warnings := w\<rparr>) c = uu_cpuidle_get_cpu_driver cfg s c"
  by (simp_all add: uu_cpuidle_get_cpu_driver_def)

lemma released_frame [simp]:
  "drivers (released cfg s d) = drivers s" "bc_calls (released cfg s d) = bc_calls s"
  "warnings (released cfg s d) = warnings s" "off (released cfg s d) = off s"
  by (simp_all add: released_def)

lemma claimed_frame [simp]:
  "drivers (claimed cfg s d) = drivers s" "bc_calls (claimed cfg s d) = bc_calls s"
  "warnings (claimed cfg s d) = warnings s" "off (claimed cfg s d) = off s"
  by (simp_all add: claimed_def)

lemma mask_of_frame [simp]:
  "mask_of cfg (drv\<lparr>bctimer := b\<rparr>) = mask_of cfg drv"
  "mask_of cfg (drv\<lparr>refcnt := n\<rparr>) = mask_of cfg drv"
  "mask_of cfg (drv\<lparr>states := sts\<rparr>) = mask_of cfg drv"
  by (simp_all add: mask_of_def)

lemma units_frame [simp]:
  "units cfg (drv\<lparr>bctimer := b\<rparr>) = units cfg drv"
  "units cfg (drv\<lparr>refcnt := n\<rparr>) = units cfg drv"
  "units cfg (drv\<lparr>states := sts\<rparr>) = units cfg drv"
  by (simp_all add: units_def)

lemma not_vacant:
  assumes "c \<in> units cfg (drivers s d)" "uu_cpuidle_get_cpu_driver cfg s c = Some a"
  shows "\<not> vacant cfg s d"
  using assms by (fastforce simp: vacant_def uu_cpuidle_get_cpu_driver_def split: if_splits)

lemma poll_idle_init_Some:
  assumes "poll_idle_init cfg d1 = Some d4"
  shows "refcnt d4 = refcnt d1" "cpumask d4 = cpumask d1" "bctimer d4 = bctimer d1"
    "state_count d4 = state_count d1" "length (states d4) = length (states d1)"
    "tl (states d4) = tl (states d1)" "mask_of cfg d4 = mask_of cfg d1"
    "units cfg d4 = units cfg d1"
  using assms
  by (auto simp: poll_idle_init_def mask_of_def units_def split: if_splits list.splits)

text \<open>A successful registration, in closed form.\<close>

lemma register_OK_D:
  assumes "uu_cpuidle_register_driver cfg s (Some p) = Some (OK, s')"
  obtains d4 where
    "state_count (drivers s p) \<noteq> 0" "\<not> off s" "in_bounds (drivers s p)" "vacant cfg s p"
    "poll_idle_init cfg (initialised cfg (drivers s p)) = Some d4"
    "s' = (claimed cfg (s\<lparr>drivers := (drivers s)(p := initialised cfg (drivers s p))\<rparr>) p)
             \<lparr>drivers := (drivers s)(p := d4),
              bc_calls := bc_calls s @
                (if bctimer (drivers s p) \<or> needs_timer_stop cfg (drivers s p)
                 then [(CLOCK_EVT_NOTIFY_BROADCAST_ON, mask_of cfg (drivers s p))]
                 else [])\<rparr>"
  using assms unfolding register_eq by (auto split: if_splits option.splits)

subsection \<open>What one operation leaves alone\<close>

text \<open>Every result of \<open>register\<close>, by cases.\<close>

lemma register_cases:
  assumes "cpuidle_register_driver cfg s drv = Some (r, s')"
  obtains
    (refused) "r = ERR EINVAL \<or> r = ERR ENODEV" "s' = s"
  | (busy) p where "drv = Some p" "r = ERR EBUSY" "in_bounds (drivers s p)" "\<not> vacant cfg s p"
      "s' = (if CONFIG_CPU_IDLE_MULTIPLE_DRIVERS cfg
             then released cfg (s\<lparr>drivers := (drivers s)(p := initialised cfg (drivers s p))\<rparr>) p
             else s\<lparr>drivers := (drivers s)(p := initialised cfg (drivers s p))\<rparr>)"
  | (ok) p d4 where "drv = Some p" "r = OK" "in_bounds (drivers s p)" "vacant cfg s p"
      "poll_idle_init cfg (initialised cfg (drivers s p)) = Some d4"
      "s' = (claimed cfg (s\<lparr>drivers := (drivers s)(p := initialised cfg (drivers s p))\<rparr>) p)
             \<lparr>drivers := (drivers s)(p := d4),
              bc_calls := bc_calls s @
                (if bctimer (drivers s p) \<or> needs_timer_stop cfg (drivers s p)
                 then [(CLOCK_EVT_NOTIFY_BROADCAST_ON, mask_of cfg (drivers s p))]
                 else [])\<rparr>"
proof (cases drv)
  case None
  then show ?thesis using assms refused
    by (simp add: cpuidle_register_driver_def register_null)
next
  case (Some p)
  with assms have eq: "uu_cpuidle_register_driver cfg s (Some p) = Some (r, s')"
    by (simp add: cpuidle_register_driver_def)
  show ?thesis
  proof (cases "state_count (drivers s p) = 0 \<or> off s")
    case True
    then show ?thesis using eq refused unfolding register_eq by (auto split: if_splits)
  next
    case False
    then have inb: "in_bounds (drivers s p)" using eq unfolding register_eq
      by (auto split: if_splits)
    show ?thesis
    proof (cases "vacant cfg s p")
      case False
      show ?thesis
        by (rule busy [of p]) (use eq Some False inb \<open>\<not> (state_count (drivers s p) = 0 \<or> off s)\<close>
            in \<open>auto simp: register_eq\<close>)
    next
      case True
      then obtain d4 where d4: "poll_idle_init cfg (initialised cfg (drivers s p)) = Some d4"
        using eq inb \<open>\<not> (state_count (drivers s p) = 0 \<or> off s)\<close> unfolding register_eq
        by (auto split: option.splits)
      show ?thesis
        by (rule ok [of p d4]) (use eq Some True inb d4 \<open>\<not> (state_count (drivers s p) = 0 \<or> off s)\<close>
            in \<open>auto simp: register_eq\<close>)
    qed
  qed
qed

lemma register_drivers:
  assumes "cpuidle_register_driver cfg s drv = Some (r, s')"
  shows "drivers s' = drivers s \<or>
         (\<exists>p d'. drv = Some p \<and> drivers s' = (drivers s)(p := d') \<and> refcnt d' = 0 \<and>
                 cpumask d' = Some (mask_of cfg (drivers s p)) \<and>
                 bctimer d' = (bctimer (drivers s p) \<or> needs_timer_stop cfg (drivers s p)) \<and>
                 state_count d' = state_count (drivers s p) \<and>
                 (states d' = states (drivers s p) \<or>
                  poll_idle_init cfg (initialised cfg (drivers s p)) = Some d'))"
  using assms
proof (cases rule: register_cases)
  case refused
  then show ?thesis by simp
next
  case (busy p)
  then show ?thesis by auto
next
  case (ok p d4)
  note d4 = poll_idle_init_Some [OF ok(5)]
  show ?thesis using ok d4 by auto
qed

lemma unregister_drivers:
  assumes "cpuidle_unregister_driver cfg s p = Some s'"
  shows "drivers s' = drivers s \<or>
         (refcnt (drivers s p) \<le> 0 \<and> bctimer (drivers s p) \<and>
          drivers s' = (drivers s)(p := (drivers s p)\<lparr>bctimer := False\<rparr>))"
  using assms unfolding cpuidle_unregister_driver_def unregister_eq
  by (auto split: if_splits)





text \<open>The fields of a driver that no foreign operation writes.\<close>

lemma step_foreign_frame:
  assumes "step cfg s x = Some s'" "foreign d x"
  shows "bctimer (drivers s' d) = bctimer (drivers s d) \<and>
         cpumask (drivers s' d) = cpumask (drivers s d) \<and>
         states (drivers s' d) = states (drivers s d) \<and>
         state_count (drivers s' d) = state_count (drivers s d)"
proof (cases x)
  case (Register drv)
  with assms(1) obtain r where "cpuidle_register_driver cfg s drv = Some (r, s')" by auto
  from register_drivers [OF this] assms(2) Register show ?thesis by auto
next
  case (Unregister p)
  with assms(1) have "cpuidle_unregister_driver cfg s p = Some s'" by simp
  from unregister_drivers [OF this] assms(2) Unregister show ?thesis by auto
next
  case (Acquire cpu)
  with assms show ?thesis
    by (auto simp: cpuidle_driver_ref_def split: option.splits if_splits)
next
  case (Release cpu)
  with assms show ?thesis
    by (auto simp: cpuidle_driver_unref_def WARN_ON_def split: option.splits if_splits)
qed

lemma run_foreign_frame:
  "run cfg s xs = Some s' \<Longrightarrow> list_all (foreign d) xs \<Longrightarrow>
   bctimer (drivers s' d) = bctimer (drivers s d) \<and>
   cpumask (drivers s' d) = cpumask (drivers s d) \<and>
   states (drivers s' d) = states (drivers s d) \<and>
   state_count (drivers s' d) = state_count (drivers s d)"
proof (induction xs arbitrary: s)
  case Nil
  then show ?case by simp
next
  case (Cons x xs)
  then obtain s1 where s1: "step cfg s x = Some s1" and r: "run cfg s1 xs = Some s'"
    by (auto split: option.splits)
  from Cons.prems(2) have fx: "foreign d x" and fxs: "list_all (foreign d) xs" by simp_all
  from step_foreign_frame [OF s1 fx] Cons.IH [OF r fxs] show ?case by simp
qed

lemma needs_after_poll:
  assumes disjoint: "CPUIDLE_FLAG_TIME_VALID cfg AND CPUIDLE_FLAG_TIMER_STOP cfg = 0"
    and poll: "poll_idle_init cfg d1 = Some d4"
    and needs: "needs_timer_stop cfg d4"
  shows "needs_timer_stop cfg d1"
proof (cases "CONFIG_ARCH_HAS_CPU_RELAX cfg")
  case False
  with poll needs show ?thesis by (simp add: poll_idle_init_def)
next
  case True
  with poll obtain st rest where d1: "states d1 = st # rest"
    by (auto simp: poll_idle_init_def split: list.splits)
  with True poll obtain st' where d4: "states d4 = st' # rest" "state_count d4 = state_count d1"
    and fl: "flags st' = CPUIDLE_FLAG_TIME_VALID cfg"
    by (auto simp: poll_idle_init_def)
  have "\<not> carries_timer_stop cfg st'" using fl disjoint by (simp add: carries_timer_stop_def)
  then show ?thesis using needs d1 d4
    by (cases "nat (state_count d1)") (auto simp: needs_timer_stop_def state_table_def)
qed

lemma needs_frame [simp]:
  "needs_timer_stop cfg (drv\<lparr>refcnt := n\<rparr>) = needs_timer_stop cfg drv"
  "needs_timer_stop cfg (drv\<lparr>bctimer := b\<rparr>) = needs_timer_stop cfg drv"
  "needs_timer_stop cfg (drv\<lparr>cpumask := m\<rparr>) = needs_timer_stop cfg drv"
  "needs_timer_stop cfg (initialised cfg drv) = needs_timer_stop cfg drv"
  by (simp_all add: needs_timer_stop_def state_table_def initialised_def)

text \<open>Once the flag agrees with the table, only a successful \<open>unregister\<close> of the driver
  changes it.\<close>

lemma step_flag_stable:
  assumes disjoint: "CPUIDLE_FLAG_TIME_VALID cfg AND CPUIDLE_FLAG_TIMER_STOP cfg = 0"
    and st: "step cfg s x = Some s'" and x: "x \<noteq> Unregister d"
    and inv: "needs_timer_stop cfg (drivers s d) \<longrightarrow> bctimer (drivers s d)"
  shows "bctimer (drivers s' d) = bctimer (drivers s d) \<and>
         (needs_timer_stop cfg (drivers s' d) \<longrightarrow> bctimer (drivers s' d))"
proof (cases x)
  case (Register drv)
  with st obtain r where reg: "cpuidle_register_driver cfg s drv = Some (r, s')" by auto
  from reg show ?thesis
  proof (cases rule: register_cases)
    case refused
    then show ?thesis using inv by simp
  next
    case (busy p)
    then show ?thesis using inv by (cases "p = d") auto
  next
    case (ok p d4)
    note d4 = poll_idle_init_Some [OF ok(5)]
    have "needs_timer_stop cfg d4 \<longrightarrow> needs_timer_stop cfg (drivers s p)"
      using needs_after_poll [OF disjoint ok(5)] by simp
    then show ?thesis using inv ok(6) d4 by (cases "p = d") auto
  qed
next
  case (Unregister p)
  with st have u: "cpuidle_unregister_driver cfg s p = Some s'" by simp
  from Unregister x have "p \<noteq> d" by simp
  with unregister_drivers [OF u] inv show ?thesis by auto
next
  case (Acquire cpu)
  with st inv show ?thesis
    by (auto simp: cpuidle_driver_ref_def split: option.splits if_splits)
next
  case (Release cpu)
  with st inv show ?thesis
    by (auto simp: cpuidle_driver_unref_def WARN_ON_def split: option.splits if_splits)
qed

lemma run_flag_stable:
  assumes disjoint: "CPUIDLE_FLAG_TIME_VALID cfg AND CPUIDLE_FLAG_TIMER_STOP cfg = 0"
  shows "run cfg s xs = Some s' \<Longrightarrow> Unregister d \<notin> set xs \<Longrightarrow>
         needs_timer_stop cfg (drivers s d) \<longrightarrow> bctimer (drivers s d) \<Longrightarrow>
         bctimer (drivers s' d) = bctimer (drivers s d)"
proof (induction xs arbitrary: s)
  case Nil
  then show ?case by simp
next
  case (Cons x xs)
  then obtain s1 where s1: "step cfg s x = Some s1" and r: "run cfg s1 xs = Some s'"
    by (auto split: option.splits)
  from Cons.prems(2) have x: "x \<noteq> Unregister d" and xs: "Unregister d \<notin> set xs" by auto
  from step_flag_stable [OF disjoint s1 x Cons.prems(3)]
  have a: "bctimer (drivers s1 d) = bctimer (drivers s d)"
    and b: "needs_timer_stop cfg (drivers s1 d) \<longrightarrow> bctimer (drivers s1 d)"
    by blast+
  from Cons.IH [OF r xs b] a show ?case by simp
qed



text \<open>A driver that keeps to the data model does so after every operation: the polling
  state takes the place of an entry that did not carry \<open>TIMER_STOP\<close>, and does not carry
  it either, so the table has a \<open>TIMER_STOP\<close> state after the registration if and only if
  it had one before.\<close>

lemma keeps_frame [simp]:
  "keeps_convention cfg (drv\<lparr>refcnt := n\<rparr>) = keeps_convention cfg drv"
  "keeps_convention cfg (drv\<lparr>bctimer := False\<rparr>)
     = (CONFIG_ARCH_HAS_CPU_RELAX cfg \<longrightarrow>
          \<not> list_ex (carries_timer_stop cfg) (take 1 (state_table drv)))"
  by (simp_all add: keeps_convention_def state_table_def)






subsection \<open>Exclusive ownership in every reachable state\<close>

text \<open>With per-CPU slots, the operations keep every driver either without any unit or
  with exactly the units of its mask. So where a unit of a driver's mask belongs to
  another driver, the driver itself holds none of them, and a driver never holds a unit
  outside its mask.\<close>

lemma owned_frame [simp]:
  "owned cfg (s\<lparr>drivers := h\<rparr>) d = owned cfg s d"
  "owned cfg (s\<lparr>bc_calls := l\<rparr>) d = owned cfg s d"
  "owned cfg (s\<lparr>warnings := w\<rparr>) d = owned cfg s d"
  by (simp_all add: owned_def)

lemma owned_released:
  "owned cfg (released cfg s p) d =
     (if d = p then owned cfg s p - (if CONFIG_CPU_IDLE_MULTIPLE_DRIVERS cfg
                                      then units cfg (drivers s p) else UNIV)
      else owned cfg s d)"
  by (auto simp: owned_def get_released)

lemma owned_claimed:
  assumes "CONFIG_CPU_IDLE_MULTIPLE_DRIVERS cfg" "vacant cfg s p"
  shows "owned cfg (claimed cfg s p) d =
           (if d = p then owned cfg s p \<union> units cfg (drivers s p) else owned cfg s d)"
proof -
  have "uu_cpuidle_get_cpu_driver cfg (claimed cfg s p) c = Some d \<longleftrightarrow>
        (if d = p then uu_cpuidle_get_cpu_driver cfg s c = Some p \<or> c \<in> units cfg (drivers s p)
         else uu_cpuidle_get_cpu_driver cfg s c = Some d)" for c
    unfolding get_claimed using assms
    by (auto simp: vacant_def uu_cpuidle_get_cpu_driver_def)
  then show ?thesis using units_bound [of _ cfg "drivers s p"]
    by (auto simp: owned_def)
qed

lemma exclusive_frame:
  assumes "exclusive cfg s" "\<And>d. owned cfg s' d = owned cfg s d"
    "\<And>d. cpumask (drivers s' d) = cpumask (drivers s d)"
  shows "exclusive cfg s'"
  using assms by (simp add: exclusive_def units_def mask_of_def)

lemma step_exclusive:
  assumes multi: "CONFIG_CPU_IDLE_MULTIPLE_DRIVERS cfg"
    and ex: "exclusive cfg s" and st: "step cfg s x = Some s'"
  shows "exclusive cfg s'"
proof (cases x)
  case (Register drv)
  with st obtain r where reg: "cpuidle_register_driver cfg s drv = Some (r, s')" by auto
  from reg show ?thesis
  proof (cases rule: register_cases)
    case refused
    then show ?thesis using ex by simp
  next
    case (busy p)
    let ?s1 = "s\<lparr>drivers := (drivers s)(p := initialised cfg (drivers s p))\<rparr>"
    have s': "s' = released cfg ?s1 p" using busy multi by simp
    have own: "owned cfg s' d = (if d = p then owned cfg s p - units cfg (drivers s p)
                                  else owned cfg s d)" for d
      unfolding s' owned_released using multi by simp
    have drv: "drivers s' = (drivers s)(p := initialised cfg (drivers s p))"
      unfolding s' by simp
    show ?thesis unfolding exclusive_def
    proof
      fix d
      show "owned cfg s' d = {} \<or>
            (cpumask (drivers s' d) \<noteq> None \<and> owned cfg s' d = units cfg (drivers s' d))"
      proof (cases "d = p")
        case True
        then show ?thesis using ex [unfolded exclusive_def, rule_format, of p]
          by (auto simp: own)
      next
        case False
        then show ?thesis using ex [unfolded exclusive_def, rule_format, of d]
          by (simp add: own drv)
      qed
    qed
  next
    case (ok p d4)
    let ?s1 = "s\<lparr>drivers := (drivers s)(p := initialised cfg (drivers s p))\<rparr>"
    note d4 = poll_idle_init_Some [OF ok(5)]
    have vac: "vacant cfg ?s1 p" using ok(4) by simp
    have "owned cfg s' d = owned cfg (claimed cfg ?s1 p) d" for d
      unfolding ok(6) by simp
    then have own: "owned cfg s' d = (if d = p then owned cfg s p \<union> units cfg (drivers s p)
                                  else owned cfg s d)" for d
      using owned_claimed [OF multi vac, of d] by simp
    have drv: "drivers s' = (drivers s)(p := d4)" unfolding ok(6) by simp
    show ?thesis unfolding exclusive_def
    proof
      fix d
      show "owned cfg s' d = {} \<or>
            (cpumask (drivers s' d) \<noteq> None \<and> owned cfg s' d = units cfg (drivers s' d))"
      proof (cases "d = p")
        case True
        then show ?thesis using ex [unfolded exclusive_def, rule_format, of p]
          by (auto simp: own drv d4)
      next
        case False
        then show ?thesis using ex [unfolded exclusive_def, rule_format, of d]
          by (simp add: own drv)
      qed
    qed
  qed
next
  case (Unregister p)
  with st have u: "uu_cpuidle_unregister_driver cfg s p = Some s'"
    by (simp add: cpuidle_unregister_driver_def)
  show ?thesis
  proof (cases "0 < refcnt (drivers s p)")
    case True
    with u have "s' = s\<lparr>warnings := Suc (warnings s)\<rparr>" by (simp add: unregister_eq)
    then show ?thesis using ex by (simp add: exclusive_def)
  next
    case False
    with u have own: "owned cfg s' d = (if d = p then owned cfg s p - units cfg (drivers s p)
                                  else owned cfg s d)"
      and drv: "d \<noteq> p \<Longrightarrow> drivers s' d = drivers s d" for d
      using multi unfolding unregister_eq
      by (auto simp: owned_released split: if_splits)
    show ?thesis unfolding exclusive_def
    proof
      fix d
      show "owned cfg s' d = {} \<or>
            (cpumask (drivers s' d) \<noteq> None \<and> owned cfg s' d = units cfg (drivers s' d))"
      proof (cases "d = p")
        case True
        then show ?thesis using ex [unfolded exclusive_def, rule_format, of p]
          by (auto simp: own)
      next
        case False
        then show ?thesis using ex [unfolded exclusive_def, rule_format, of d]
          by (simp add: own drv)
      qed
    qed
  qed
next
  case (Acquire cpu)
  with st have "(\<forall>d. owned cfg s' d = owned cfg s d) \<and>
                (\<forall>d. cpumask (drivers s' d) = cpumask (drivers s d))"
    by (auto simp: cpuidle_driver_ref_def split: option.splits if_splits)
  with ex show ?thesis by (intro exclusive_frame [of cfg s s']) simp_all
next
  case (Release cpu)
  with st have "(\<forall>d. owned cfg s' d = owned cfg s d) \<and>
                (\<forall>d. cpumask (drivers s' d) = cpumask (drivers s d))"
    by (auto simp: cpuidle_driver_unref_def WARN_ON_def split: option.splits if_splits)
  with ex show ?thesis by (intro exclusive_frame [of cfg s s']) simp_all
qed

lemma run_exclusive:
  assumes multi: "CONFIG_CPU_IDLE_MULTIPLE_DRIVERS cfg"
  shows "run cfg s xs = Some s' \<Longrightarrow> exclusive cfg s \<Longrightarrow> exclusive cfg s'"
proof (induction xs arbitrary: s)
  case Nil
  then show ?case by simp
next
  case (Cons x xs)
  then obtain s1 where s1: "step cfg s x = Some s1" and r: "run cfg s1 xs = Some s'"
    by (auto split: option.splits)
  from Cons.IH [OF r step_exclusive [OF multi Cons.prems(2) s1]] show ?case .
qed

lemma exclusive_empty: "\<forall>c. cpuidle_drivers s c = None \<Longrightarrow> CONFIG_CPU_IDLE_MULTIPLE_DRIVERS cfg \<Longrightarrow>
  exclusive cfg s"
  by (simp add: exclusive_def owned_def uu_cpuidle_get_cpu_driver_def)

lemma exclusive_fresh:
  assumes "exclusive cfg s" "c0 \<in> units cfg (drivers s d)"
    "uu_cpuidle_get_cpu_driver cfg s c0 = Some a" "a \<noteq> d"
  shows "owned cfg s d \<inter> units cfg (drivers s d) = {}"
proof (rule ccontr)
  assume "owned cfg s d \<inter> units cfg (drivers s d) \<noteq> {}"
  with assms(1) have "owned cfg s d = units cfg (drivers s d)"
    by (auto simp: exclusive_def)
  with assms(2) have "uu_cpuidle_get_cpu_driver cfg s c0 = Some d" by (auto simp: owned_def)
  with assms(3,4) show False by simp
qed

lemma exclusive_inside: "exclusive cfg s \<Longrightarrow> owned cfg s d \<subseteq> units cfg (drivers s d)"
  by (auto simp: exclusive_def)

subsection \<open>When \<open>register\<close> returns\<close>

text \<open>With the one global slot a conflict leaves the slot alone, also when the slot holds
  the driver itself.\<close>

lemma register_global_busy:
  assumes "\<not> CONFIG_CPU_IDLE_MULTIPLE_DRIVERS cfg" "cpuidle_curr_driver s = Some a"
    "state_count (drivers s d) \<noteq> 0" "in_bounds (drivers s d)" "\<not> off s"
  shows "\<exists>s'. cpuidle_register_driver cfg s (Some d) = Some (ERR EBUSY, s') \<and>
              cpuidle_curr_driver s' = Some a"
  using assms by (simp add: cpuidle_register_driver_def register_eq vacant_def)

lemma register_succeeds:
  assumes "state_count (drivers s d) \<noteq> 0" "in_bounds (drivers s d)" "\<not> off s" "vacant cfg s d"
    "CONFIG_ARCH_HAS_CPU_RELAX cfg \<longrightarrow> states (drivers s d) \<noteq> []"
  shows "\<exists>s'. cpuidle_register_driver cfg s (Some d) = Some (OK, s')"
  using assms
  by (auto simp: cpuidle_register_driver_def register_eq poll_idle_init_def
      split: option.splits list.splits)

lemma register_returns:
  assumes "in_bounds (drivers s d)"
    "CONFIG_ARCH_HAS_CPU_RELAX cfg \<longrightarrow> states (drivers s d) \<noteq> []"
  shows "\<exists>r s'. cpuidle_register_driver cfg s (Some d) = Some (r, s')"
  using assms
  by (auto simp: cpuidle_register_driver_def register_eq poll_idle_init_def
      split: option.splits list.splits)

section \<open>Evaluation on the three-CPU machine\<close>

lemma upt_0_3: "[0..<3] = [0, 1, 2]"
  by (simp add: upt_rec)

lemmas machine_defs = cfg_percpu_def idle_state_def poll_state_def drv_none_def
  drv_A_def drv_B_def drv_C_def boot_def drv_A_reg_def after_A_def held_A_def
  drv_C_reg_def after_C_def erased_C_def again_C_def busy_C_def gone_A_def
  back_A_def erased_A_def wrapped_A_def drv_E_def boot_E_def after_E_def

lemmas eval_defs = cpuidle_register_driver_def uu_cpuidle_register_driver_def
  uu_cpuidle_driver_init_def timer_stop_scan.simps INT_MIN_def INT_MAX_def
  uu_cpuidle_set_driver_def uu_cpuidle_unset_driver_def for_each_cpu_def upt_0_3
  on_each_cpu_mask_def poll_idle_init_def snprintf_def
  cpuidle_unregister_driver_def uu_cpuidle_unregister_driver_def WARN_ON_def
  cpuidle_driver_ref_def cpuidle_driver_unref_def cpuidle_get_driver_def
  uu_cpuidle_get_cpu_driver_def

lemma boot_register_A:
  "cpuidle_register_driver cfg_percpu boot (Some 10) = Some (OK, after_A)"
  by (simp add: machine_defs eval_defs)

lemma units3:
  "units cfg_percpu drv_A = {1, 2}" "units cfg_percpu drv_B = {0, 1}"
  "units cfg_percpu drv_C = {0, 1, 2}" "units cfg_percpu drv_A_reg = {1, 2}"
  by (auto simp: units_def mask_of_def for_each_cpu_set machine_defs)

lemma boot_register_C:
  "cpuidle_register_driver cfg_percpu boot (Some 30) = Some (OK, after_C)"
  by (simp add: machine_defs eval_defs)

lemma after_C_register_C:
  "cpuidle_register_driver cfg_percpu after_C (Some 30) = Some (ERR EBUSY, erased_C)"
  by (simp add: machine_defs eval_defs fun_eq_iff)

lemma erased_C_register_C:
  "cpuidle_register_driver cfg_percpu erased_C (Some 30) = Some (OK, again_C)"
  by (simp add: machine_defs eval_defs fun_eq_iff)

lemma after_A_register_C:
  "cpuidle_register_driver cfg_percpu after_A (Some 30) = Some (ERR EBUSY, busy_C)"
  by (simp add: machine_defs eval_defs fun_eq_iff)

lemma after_A_ref:
  "cpuidle_driver_ref cfg_percpu after_A 1 = Some (Some 10, held_A)"
  by (simp add: machine_defs eval_defs fun_eq_iff)

lemma held_A_unref:
  "cpuidle_driver_unref cfg_percpu held_A 1 = after_A"
  by (simp add: machine_defs eval_defs fun_eq_iff)


lemma no_stop_C: "\<not> needs_timer_stop cfg_percpu drv_C_reg"
  by (simp add: needs_timer_stop_def state_table_def carries_timer_stop_def machine_defs)

lemma after_A_trace:
  "run cfg_percpu after_A [Acquire 1, Register (Some 30), Release 1] = Some busy_C"
  by (simp add: machine_defs eval_defs fun_eq_iff)

lemma after_A_registered: "registered cfg_percpu after_A 10"
  by (auto simp: registered_def owned_def units_def mask_of_def for_each_cpu_set
      uu_cpuidle_get_cpu_driver_def machine_defs)

lemma held_A_registered: "registered cfg_percpu held_A 10"
  by (auto simp: registered_def owned_def units_def mask_of_def for_each_cpu_set
      uu_cpuidle_get_cpu_driver_def machine_defs)

lemma after_A_owned: "owned cfg_percpu after_A 10 = {1, 2}"
  by (auto simp: owned_def uu_cpuidle_get_cpu_driver_def machine_defs split: if_splits)

lemma after_A_drivers:
  "drivers after_A 10 = drv_A_reg" "drivers after_A 20 = drv_B" "drivers after_A 30 = drv_C"
  "drivers boot 10 = drv_A" "drivers boot 30 = drv_C" "drivers after_C 30 = drv_C_reg"
  "drivers held_A 10 = drv_A_reg\<lparr>refcnt := 1\<rparr>" "drivers busy_C 10 = drv_A_reg"
  by (simp_all add: after_A_def boot_def after_C_def held_A_def busy_C_def)

lemma in_bounds3: "in_bounds drv_A" "in_bounds drv_B" "in_bounds drv_C" "in_bounds drv_A_reg"
  "in_bounds drv_C_reg"
  by (simp_all add: in_bounds_def INT_MIN_def machine_defs)

lemma needs3: "needs_timer_stop cfg_percpu drv_A" "needs_timer_stop cfg_percpu drv_C"
  by (simp_all add: needs_timer_stop_def state_table_def carries_timer_stop_def machine_defs)

text \<open>The scenario of the spec, with the CPUs renamed: A is registered and acquired, B
  is refused, \<open>unregister(A)\<close> is refused and reported while the reference is out,
  and after the release A is unregistered and B registered. At the end B holds CPUs 0
  and 1, CPU 2 is free, and the broadcast timer has been switched on for A, off for A
  and on for B.\<close>

lemma spec_scenario:
  "map_option (\<lambda>s. (map (cpuidle_drivers s) [0, 1, 2], refcnt (drivers s 10), warnings s, bc_calls s))
     (run cfg_percpu boot
        [Register (Some 10), Acquire 1, Register (Some 20), Unregister 10, Release 1,
         Unregister 10, Register (Some 20)]) =
   Some ([Some 20, Some 20, None], 0, 1,
         [(CLOCK_EVT_NOTIFY_BROADCAST_ON, {1, 2}), (CLOCK_EVT_NOTIFY_BROADCAST_OFF, {1, 2}),
          (CLOCK_EVT_NOTIFY_BROADCAST_ON, {0, 1})])"
  by (simp add: machine_defs eval_defs)

lemma boot_exclusive: "exclusive cfg_percpu boot"
  by (rule exclusive_empty) (simp_all add: boot_def cfg_percpu_def)

lemma after_A_exclusive: "exclusive cfg_percpu after_A"
proof -
  have r: "run cfg_percpu boot [Register (Some 10)] = Some after_A"
    by (simp add: boot_register_A)
  have m: "CONFIG_CPU_IDLE_MULTIPLE_DRIVERS cfg_percpu" by (simp add: cfg_percpu_def)
  from run_exclusive [OF m r boot_exclusive] show ?thesis .
qed






text \<open>What happens to a driver that does not leave index 0 to the registry, in a build
  with the polling state: C is registered (its only state stops the timer and is
  replaced by the polling state), registered again (refused, and its slots cleared) and
  registered a third time. The third registration enables the broadcast timer although
  no state of the table carries \<open>TIMER_STOP\<close> any more: the flag is left over from the
  first one.\<close>

lemma stale_flag_outside_convention:
  "run cfg_percpu boot [Register (Some 30), Register (Some 30)] = Some erased_C \<and>
   \<not> needs_timer_stop cfg_percpu (drivers erased_C 30) \<and>
   cpuidle_register_driver cfg_percpu erased_C (Some 30) = Some (OK, again_C) \<and>
   bc_calls again_C = bc_calls erased_C @ [(CLOCK_EVT_NOTIFY_BROADCAST_ON, {0, 1, 2})]"
proof -
  have "run cfg_percpu boot [Register (Some 30), Register (Some 30)] = Some erased_C"
    by (simp add: boot_register_C after_C_register_C)
  moreover have "drivers erased_C 30 = drv_C_reg" by (simp add: erased_C_def after_C_def)
  moreover have "bc_calls again_C = bc_calls erased_C @ [(CLOCK_EVT_NOTIFY_BROADCAST_ON, {0, 1, 2})]"
    by (simp add: again_C_def erased_C_def after_C_def)
  ultimately show ?thesis using no_stop_C erased_C_register_C by simp
qed

text \<open>Driver E, whose mask has no CPU: \<open>register(E)\<close> succeeds, and succeeds again.\<close>

lemma boot_E_register_E:
  "cpuidle_register_driver cfg_percpu boot_E (Some 40) = Some (OK, after_E)"
  by (simp add: machine_defs eval_defs fun_eq_iff)

lemma after_E_register_E:
  "cpuidle_register_driver cfg_percpu after_E (Some 40) = Some (OK, after_E)"
  by (simp add: machine_defs eval_defs fun_eq_iff)

lemma after_E_registered: "registered cfg_percpu after_E 40"
  by (auto simp: registered_def owned_def units_def mask_of_def for_each_cpu_set
      uu_cpuidle_get_cpu_driver_def machine_defs)


section \<open>The properties\<close>

text \<open>
  C1. A driver is registered while a unit of its mask is associated with another driver.
  The driver passes the checks that come first (a state count other than 0, the framework
  enabled, the scan of the states inside the array) and it holds no unit of its mask
  itself. Then \<open>cpuidle_register_driver\<close> returns \<open>-EBUSY\<close>; afterwards no unit of the
  mask is associated with the driver, and every CPU has the driver it had before the
  call: whatever the loop wrote before it met the conflict has been cleared again.

  That the driver holds no unit of its mask follows from the conflict in every state the
  operations reach from a registry without associations: with the one global slot at
  once, with per-CPU slots by \<open>run_exclusive\<close> and \<open>exclusive_fresh\<close>.
\<close>

theorem register_conflict_rolls_back:
  assumes cnt: "state_count (drivers s d) \<noteq> 0" and inb: "in_bounds (drivers s d)"
    and on: "\<not> off s"
    and c0: "c0 \<in> units cfg (drivers s d)"
    and held: "uu_cpuidle_get_cpu_driver cfg s c0 = Some a" and other: "a \<noteq> d"
    and fresh: "owned cfg s d \<inter> units cfg (drivers s d) = {}"
  shows "\<exists>s'. cpuidle_register_driver cfg s (Some d) = Some (ERR EBUSY, s') \<and>
              owned cfg s' d \<inter> units cfg (drivers s' d) = {} \<and>
              (\<forall>c. uu_cpuidle_get_cpu_driver cfg s' c = uu_cpuidle_get_cpu_driver cfg s c)"
proof -
  let ?s1 = "s\<lparr>drivers := (drivers s)(d := initialised cfg (drivers s d))\<rparr>"
  let ?s' = "if CONFIG_CPU_IDLE_MULTIPLE_DRIVERS cfg then released cfg ?s1 d else ?s1"
  have busy: "\<not> vacant cfg s d" using c0 held by (rule not_vacant)
  have ret: "cpuidle_register_driver cfg s (Some d) = Some (ERR EBUSY, ?s')"
    using cnt inb on busy by (simp add: cpuidle_register_driver_def register_eq)
  have same: "uu_cpuidle_get_cpu_driver cfg ?s' c = uu_cpuidle_get_cpu_driver cfg s c" for c
    using fresh units_bound [of c cfg "drivers s d"] by (auto simp: get_released owned_def)
  have u: "units cfg (drivers ?s' d) = units cfg (drivers s d)" by simp
  have "owned cfg ?s' d \<inter> units cfg (drivers ?s' d) = {}"
    unfolding u using fresh by (simp add: owned_def same)
  with ret same show ?thesis by blast
qed

text \<open>On the machine: A holds CPUs 1 and 2, B asks for CPUs 0 and 1. The loop writes B
  into the free slot of CPU 0, meets A at CPU 1 and clears slot 0 again.\<close>

theorem register_conflict_rolls_back_witness:
  "state_count (drivers after_A 20) \<noteq> 0 \<and> in_bounds (drivers after_A 20) \<and> \<not> off after_A \<and>
   1 \<in> units cfg_percpu (drivers after_A 20) \<and>
   uu_cpuidle_get_cpu_driver cfg_percpu after_A 1 = Some 10 \<and>
   owned cfg_percpu after_A 20 \<inter> units cfg_percpu (drivers after_A 20) = {} \<and>
   (\<exists>s'. cpuidle_register_driver cfg_percpu after_A (Some 20) = Some (ERR EBUSY, s') \<and>
         owned cfg_percpu s' 20 \<inter> units cfg_percpu (drivers s' 20) = {} \<and>
         (\<forall>c. uu_cpuidle_get_cpu_driver cfg_percpu s' c =
              uu_cpuidle_get_cpu_driver cfg_percpu after_A c))"
proof -
  have h1: "state_count (drivers after_A 20) \<noteq> 0" by (simp add: machine_defs)
  have h2: "in_bounds (drivers after_A 20)" by (simp add: machine_defs in_bounds_def INT_MIN_def)
  have h3: "\<not> off after_A" by (simp add: machine_defs)
  have d: "drivers after_A 20 = drv_B" by (simp add: after_A_def boot_def)
  have h4: "1 \<in> units cfg_percpu (drivers after_A 20)" by (simp add: d units3)
  have h5: "uu_cpuidle_get_cpu_driver cfg_percpu after_A 1 = Some 10"
    by (simp add: uu_cpuidle_get_cpu_driver_def machine_defs)
  have h6: "owned cfg_percpu after_A 20 \<inter> units cfg_percpu (drivers after_A 20) = {}"
    by (rule exclusive_fresh [OF after_A_exclusive h4 h5]) simp
  show ?thesis
    using register_conflict_rolls_back [OF h1 h2 h3 h4 h5 _ h6] h1 h2 h3 h4 h5 h6 by simp
qed

text \<open>
  C2. When \<open>cpuidle_register_driver\<close> returns 0 for a driver, every unit of the driver's
  mask is associated with the driver, its reference count is 0, and its mask pointer is
  the mask of all possible CPUs if it was null at the call and is unchanged otherwise.
  A return of 0 implies a state count other than 0.
\<close>

theorem register_success_claims_mask:
  assumes ok: "cpuidle_register_driver cfg s (Some d) = Some (OK, s')"
  shows "(\<forall>c\<in>units cfg (drivers s' d). uu_cpuidle_get_cpu_driver cfg s' c = Some d) \<and>
         refcnt (drivers s' d) = 0 \<and>
         (cpumask (drivers s d) = None \<longrightarrow> cpumask (drivers s' d) = Some (cpu_possible_mask cfg)) \<and>
         (cpumask (drivers s d) \<noteq> None \<longrightarrow> cpumask (drivers s' d) = cpumask (drivers s d))"
proof -
  let ?s1 = "s\<lparr>drivers := (drivers s)(d := initialised cfg (drivers s d))\<rparr>"
  from ok obtain d4 where
    poll: "poll_idle_init cfg (initialised cfg (drivers s d)) = Some d4" and
    s': "s' = (claimed cfg ?s1 d)
             \<lparr>drivers := (drivers s)(d := d4),
              bc_calls := bc_calls s @
                (if bctimer (drivers s d) \<or> needs_timer_stop cfg (drivers s d)
                 then [(CLOCK_EVT_NOTIFY_BROADCAST_ON, mask_of cfg (drivers s d))]
                 else [])\<rparr>"
    unfolding cpuidle_register_driver_def by (rule register_OK_D)
  note d4 = poll_idle_init_Some [OF poll]
  have drv: "drivers s' d = d4" using s' by simp
  have get: "uu_cpuidle_get_cpu_driver cfg s' c = uu_cpuidle_get_cpu_driver cfg (claimed cfg ?s1 d) c"
    for c using s' by simp
  have "uu_cpuidle_get_cpu_driver cfg s' c = Some d" if "c \<in> units cfg (drivers s' d)" for c
    using that unfolding get drv by (simp add: get_claimed d4)
  moreover have "refcnt (drivers s' d) = 0" unfolding drv by (simp add: d4)
  moreover have "cpumask (drivers s' d) = Some (mask_of cfg (drivers s d))"
    unfolding drv by (simp add: d4)
  ultimately show ?thesis by (auto simp: mask_of_def)
qed

text \<open>On the machine: C has a null mask and is registered at boot; it receives all three
  CPUs.\<close>

theorem register_success_claims_mask_witness:
  "cpuidle_register_driver cfg_percpu boot (Some 30) = Some (OK, after_C) \<and>
   uu_cpuidle_get_cpu_driver cfg_percpu after_C 0 = Some 30 \<and>
   uu_cpuidle_get_cpu_driver cfg_percpu after_C 1 = Some 30 \<and>
   uu_cpuidle_get_cpu_driver cfg_percpu after_C 2 = Some 30 \<and>
   refcnt (drivers after_C 30) = 0 \<and>
   cpumask (drivers boot 30) = None \<and>
   cpumask (drivers after_C 30) = Some (cpu_possible_mask cfg_percpu)"
proof -
  have u: "units cfg_percpu (drivers after_C 30) = {0, 1, 2}"
    by (auto simp: units_def mask_of_def for_each_cpu_set machine_defs)
  have n: "cpumask (drivers boot 30) = None" by (simp add: machine_defs)
  from register_success_claims_mask [OF boot_register_C] n show ?thesis
    unfolding u by (simp add: boot_register_C)
qed

text \<open>
  C3. For a registered driver, \<open>cpuidle_unregister_driver\<close> with a reference count above
  0 reports once through \<open>WARN_ON\<close> and changes nothing else: every slot, every driver
  and the record of broadcast calls stay as they were. With a reference count of 0 (or
  below) it reports nothing and leaves every unit of the driver's mask without a driver.
\<close>

theorem unregister_refcount_gate:
  assumes reg: "registered cfg s d"
  shows "(0 < refcnt (drivers s d) \<longrightarrow>
            cpuidle_unregister_driver cfg s d = Some (s\<lparr>warnings := Suc (warnings s)\<rparr>)) \<and>
         (refcnt (drivers s d) \<le> 0 \<longrightarrow>
            (\<exists>s'. cpuidle_unregister_driver cfg s d = Some s' \<and> warnings s' = warnings s \<and>
                  (\<forall>c\<in>units cfg (drivers s d). uu_cpuidle_get_cpu_driver cfg s' c = None)))"
proof (intro conjI impI)
  assume "0 < refcnt (drivers s d)"
  then show "cpuidle_unregister_driver cfg s d = Some (s\<lparr>warnings := Suc (warnings s)\<rparr>)"
    by (simp add: cpuidle_unregister_driver_def unregister_eq)
next
  assume zero: "refcnt (drivers s d) \<le> 0"
  from reg have m: "cpumask (drivers s d) \<noteq> None"
    and own: "\<And>c. c \<in> units cfg (drivers s d) \<Longrightarrow> uu_cpuidle_get_cpu_driver cfg s c = Some d"
    by (auto simp: registered_def owned_def)
  let ?s1 = "s\<lparr>drivers := (drivers s)(d := (drivers s d)\<lparr>bctimer := False\<rparr>),
             bc_calls := bc_calls s @
               [(CLOCK_EVT_NOTIFY_BROADCAST_OFF, mask_of cfg (drivers s d))]\<rparr>"
  let ?s' = "if bctimer (drivers s d) then released cfg ?s1 d else released cfg s d"
  have ret: "cpuidle_unregister_driver cfg s d = Some ?s'"
    using zero m by (simp add: cpuidle_unregister_driver_def unregister_eq)
  have "uu_cpuidle_get_cpu_driver cfg ?s' c = None" if "c \<in> units cfg (drivers s d)" for c
    using own [OF that] that by (simp add: get_released)
  moreover have "warnings ?s' = warnings s" by simp
  ultimately show "\<exists>s'. cpuidle_unregister_driver cfg s d = Some s' \<and> warnings s' = warnings s \<and>
                  (\<forall>c\<in>units cfg (drivers s d). uu_cpuidle_get_cpu_driver cfg s' c = None)"
    using ret by blast
qed

text \<open>On the machine: with one reference to A outstanding \<open>unregister(A)\<close> only
  reports; after the release it clears CPUs 1 and 2.\<close>

theorem unregister_refcount_gate_witness:
  "registered cfg_percpu held_A 10 \<and> 0 < refcnt (drivers held_A 10) \<and>
   cpuidle_unregister_driver cfg_percpu held_A 10 = Some (held_A\<lparr>warnings := 1\<rparr>) \<and>
   cpuidle_driver_unref cfg_percpu held_A 1 = after_A \<and>
   registered cfg_percpu after_A 10 \<and> refcnt (drivers after_A 10) \<le> 0 \<and>
   (\<exists>s'. cpuidle_unregister_driver cfg_percpu after_A 10 = Some s' \<and> warnings s' = 0 \<and>
         uu_cpuidle_get_cpu_driver cfg_percpu s' 1 = None \<and>
         uu_cpuidle_get_cpu_driver cfg_percpu s' 2 = None)"
proof -
  have r1: "0 < refcnt (drivers held_A 10)" by (simp add: after_A_drivers)
  have r0: "refcnt (drivers after_A 10) \<le> 0" by (simp add: machine_defs)
  have w: "warnings held_A = 0" "warnings after_A = 0" by (simp_all add: machine_defs)
  have u: "units cfg_percpu (drivers after_A 10) = {1, 2}" by (simp add: after_A_drivers units3)
  from unregister_refcount_gate [OF held_A_registered] unregister_refcount_gate [OF after_A_registered]
  show ?thesis using r1 r0 held_A_registered after_A_registered held_A_unref
    unfolding u by (auto simp: w)
qed



text \<open>
  C5, as stated, fails: the initialisation step does not compute the flag regardless of
  its value before the call. It leaves a flag that is set as it is. C after its
  registration has the flag set and no state that carries \<open>TIMER_STOP\<close>; the step maps
  it to itself.
\<close>

theorem driver_init_keeps_stale_flag:
  "\<not> needs_timer_stop cfg_percpu drv_C_reg \<and> bctimer drv_C_reg \<and>
   uu_cpuidle_driver_init cfg_percpu drv_C_reg = Some drv_C_reg"
  by (simp add: no_stop_C) (simp add: machine_defs eval_defs)

text \<open>
  C5, amended. After the initialisation step the flag is true if and only if it was true
  before the call or some state of the table carries \<open>TIMER_STOP\<close>; for a driver whose
  flag is clear at the call that is: if and only if some state carries \<open>TIMER_STOP\<close>.
  A successful registration leaves the driver with this value, and no later sequence of
  operations without \<open>unregister\<close> of this driver changes it (the two flag values
  \<open>TIME_VALID\<close> and \<open>TIMER_STOP\<close> being different bits).
\<close>

theorem driver_init_flag_accumulates:
  assumes disjoint: "CPUIDLE_FLAG_TIME_VALID cfg AND CPUIDLE_FLAG_TIMER_STOP cfg = 0"
    and inb: "in_bounds drv"
    and reg: "cpuidle_register_driver cfg s (Some d) = Some (OK, s1)"
    and run: "run cfg s1 xs = Some s2" and keep: "Unregister d \<notin> set xs"
  shows "(\<exists>d1. uu_cpuidle_driver_init cfg drv = Some d1 \<and>
               bctimer d1 = (bctimer drv \<or> needs_timer_stop cfg drv)) \<and>
         bctimer (drivers s1 d) = (bctimer (drivers s d) \<or> needs_timer_stop cfg (drivers s d)) \<and>
         bctimer (drivers s2 d) = bctimer (drivers s1 d)"
proof -
  have init: "\<exists>d1. uu_cpuidle_driver_init cfg drv = Some d1 \<and>
               bctimer d1 = (bctimer drv \<or> needs_timer_stop cfg drv)"
    using inb by (simp add: driver_init_in_bounds)
  from reg obtain d4 where
    poll: "poll_idle_init cfg (initialised cfg (drivers s d)) = Some d4" and
    s1: "drivers s1 d = d4"
    by (cases rule: register_cases) auto
  note d4 = poll_idle_init_Some [OF poll]
  have flag: "bctimer (drivers s1 d) = (bctimer (drivers s d) \<or> needs_timer_stop cfg (drivers s d))"
    unfolding s1 by (simp add: d4)
  have "needs_timer_stop cfg d4 \<longrightarrow> needs_timer_stop cfg (drivers s d)"
    using needs_after_poll [OF disjoint poll] by simp
  then have inv: "needs_timer_stop cfg (drivers s1 d) \<longrightarrow> bctimer (drivers s1 d)"
    unfolding flag unfolding s1 by simp
  from run_flag_stable [OF disjoint run keep inv] init flag show ?thesis by simp
qed

text \<open>On the machine: A has a clear flag and a state that stops the timer.\<close>

theorem driver_init_flag_accumulates_witness:
  "CPUIDLE_FLAG_TIME_VALID cfg_percpu AND CPUIDLE_FLAG_TIMER_STOP cfg_percpu = 0 \<and>
   in_bounds drv_A \<and>
   cpuidle_register_driver cfg_percpu boot (Some 10) = Some (OK, after_A) \<and>
   run cfg_percpu after_A [Acquire 1, Register (Some 30), Release 1] = Some busy_C \<and>
   Unregister 10 \<notin> set [Acquire 1, Register (Some 30), Release 1] \<and>
   \<not> bctimer drv_A \<and> needs_timer_stop cfg_percpu drv_A \<and>
   (\<exists>d1. uu_cpuidle_driver_init cfg_percpu drv_A = Some d1 \<and> bctimer d1) \<and>
   bctimer (drivers after_A 10) \<and> bctimer (drivers busy_C 10)"
proof -
  have dj: "CPUIDLE_FLAG_TIME_VALID cfg_percpu AND CPUIDLE_FLAG_TIMER_STOP cfg_percpu = 0"
    by (simp add: cfg_percpu_def)
  have k: "Unregister 10 \<notin> set [Acquire 1, Register (Some 30), Release 1]" by simp
  have b: "\<not> bctimer drv_A" by (simp add: drv_A_def)
  from driver_init_flag_accumulates [OF dj in_bounds3(1) boot_register_A after_A_trace k]
  show ?thesis using dj in_bounds3(1) boot_register_A after_A_trace k b needs3(1)
    by (simp add: after_A_drivers)
qed

text \<open>
  C6, as stated, fails for \<open>-EBUSY\<close>: \<open>__cpuidle_register_driver\<close> initialises the
  driver before it tries to claim the mask, as its header comment says, so a refused
  driver has been written. C is refused while A holds CPUs 1 and 2; its null mask has
  become the mask of all possible CPUs and its flag has been set.
\<close>

theorem register_busy_changes_driver:
  "cpuidle_register_driver cfg_percpu after_A (Some 30) = Some (ERR EBUSY, busy_C) \<and>
   cpumask (drivers after_A 30) = None \<and> cpumask (drivers busy_C 30) = Some {0, 1, 2} \<and>
   \<not> bctimer (drivers after_A 30) \<and> bctimer (drivers busy_C 30)"
  by (simp add: after_A_register_C) (simp add: machine_defs)

text \<open>
  C6, amended. When \<open>cpuidle_register_driver\<close> returns \<open>-EINVAL\<close> or \<open>-ENODEV\<close>, the
  driver and the whole state are as before. When it returns \<open>-EBUSY\<close>, the driver's
  state table (count and states) is as before, but the driver has been initialised: its
  reference count is 0, a null mask has been replaced by the mask of all possible CPUs,
  and its flag is set if it was set or a state carries \<open>TIMER_STOP\<close>. Every CPU that
  was not associated with this driver keeps its driver, no broadcast call and no report
  is made.
\<close>

theorem register_error_effect:
  assumes err: "cpuidle_register_driver cfg s drv = Some (ERR e, s')"
  shows "(e \<noteq> EBUSY \<longrightarrow> s' = s) \<and>
         (e = EBUSY \<longrightarrow>
            (\<exists>d. drv = Some d \<and>
                 drivers s' = (drivers s)(d := (drivers s d)
                   \<lparr>refcnt := 0, cpumask := Some (mask_of cfg (drivers s d)),
                    bctimer := bctimer (drivers s d) \<or> needs_timer_stop cfg (drivers s d)\<rparr>) \<and>
                 state_count (drivers s' d) = state_count (drivers s d) \<and>
                 states (drivers s' d) = states (drivers s d) \<and>
                 (\<forall>c. uu_cpuidle_get_cpu_driver cfg s c \<noteq> Some d \<longrightarrow>
                      uu_cpuidle_get_cpu_driver cfg s' c = uu_cpuidle_get_cpu_driver cfg s c) \<and>
                 bc_calls s' = bc_calls s \<and> warnings s' = warnings s \<and> off s' = off s))"
  using err
proof (cases rule: register_cases)
  case refused
  then show ?thesis by auto
next
  case (busy p)
  then show ?thesis by (auto simp: get_released initialised_def)
next
  case (ok p d4)
  then show ?thesis by simp
qed

text \<open>On the machine: C is refused while A holds CPUs 1 and 2; a null handle is
  refused without any change.\<close>

theorem register_error_effect_witness:
  "cpuidle_register_driver cfg_percpu after_A (Some 30) = Some (ERR EBUSY, busy_C) \<and>
   drivers busy_C 30 = drv_C\<lparr>refcnt := 0, cpumask := Some {0, 1, 2}, bctimer := True\<rparr> \<and>
   state_count (drivers busy_C 30) = state_count (drivers after_A 30) \<and>
   states (drivers busy_C 30) = states (drivers after_A 30) \<and>
   uu_cpuidle_get_cpu_driver cfg_percpu busy_C 0 = uu_cpuidle_get_cpu_driver cfg_percpu after_A 0 \<and>
   uu_cpuidle_get_cpu_driver cfg_percpu busy_C 1 = uu_cpuidle_get_cpu_driver cfg_percpu after_A 1 \<and>
   bc_calls busy_C = bc_calls after_A \<and>
   cpuidle_register_driver cfg_percpu after_A None = Some (ERR EINVAL, after_A)"
proof -
  have m: "mask_of cfg_percpu drv_C = {0, 1, 2}" by (simp add: mask_of_def machine_defs)
  have g: "uu_cpuidle_get_cpu_driver cfg_percpu after_A 0 \<noteq> Some 30"
    "uu_cpuidle_get_cpu_driver cfg_percpu after_A 1 \<noteq> Some 30"
    by (simp_all add: uu_cpuidle_get_cpu_driver_def machine_defs)
  have nul: "cpuidle_register_driver cfg_percpu after_A None = Some (ERR EINVAL, after_A)"
    by (simp add: cpuidle_register_driver_def register_null)
  from register_error_effect [OF after_A_register_C] register_error_effect [OF nul]
  show ?thesis using after_A_register_C g nul by (simp add: after_A_drivers m needs3)
qed






text \<open>
  C9. Built with \<open>CONFIG_ARCH_HAS_CPU_RELAX\<close>, a successful \<open>cpuidle_register_driver\<close>
  leaves at index 0 of the driver's states the polling state: exit latency 0, target
  residency 0, power usage \<open>-1\<close> (all bits set, the largest value of the field read as
  unsigned), flags equal to \<open>TIME_VALID\<close>, not disabled, and \<open>poll_idle\<close> as the enter
  callback, whatever stood there before. The other entries are unchanged.
\<close>

theorem register_injects_poll_state:
  assumes relax: "CONFIG_ARCH_HAS_CPU_RELAX cfg"
    and ok: "cpuidle_register_driver cfg s (Some d) = Some (OK, s')"
  shows "states (drivers s' d) \<noteq> [] \<and>
         exit_latency (states (drivers s' d) ! 0) = 0 \<and>
         target_residency (states (drivers s' d) ! 0) = 0 \<and>
         power_usage (states (drivers s' d) ! 0) = - 1 \<and>
         (\<forall>w. w \<le> power_usage (states (drivers s' d) ! 0)) \<and>
         flags (states (drivers s' d) ! 0) = CPUIDLE_FLAG_TIME_VALID cfg \<and>
         \<not> disabled (states (drivers s' d) ! 0) \<and>
         enter (states (drivers s' d) ! 0) = poll_idle \<and>
         tl (states (drivers s' d)) = tl (states (drivers s d))"
proof -
  from ok obtain d4 where
    poll: "poll_idle_init cfg (initialised cfg (drivers s d)) = Some d4" and
    s': "s' = (claimed cfg (s\<lparr>drivers := (drivers s)(d := initialised cfg (drivers s d))\<rparr>) d)
             \<lparr>drivers := (drivers s)(d := d4),
              bc_calls := bc_calls s @
                (if bctimer (drivers s d) \<or> needs_timer_stop cfg (drivers s d)
                 then [(CLOCK_EVT_NOTIFY_BROADCAST_ON, mask_of cfg (drivers s d))]
                 else [])\<rparr>"
    unfolding cpuidle_register_driver_def by (rule register_OK_D)
  have drv: "drivers s' d = d4" using s' by simp
  show ?thesis unfolding drv using poll relax
    by (auto simp: poll_idle_init_def split: list.splits)
qed

text \<open>On the machine: the first state of A is replaced.\<close>

theorem register_injects_poll_state_witness:
  "CONFIG_ARCH_HAS_CPU_RELAX cfg_percpu \<and>
   cpuidle_register_driver cfg_percpu boot (Some 10) = Some (OK, after_A) \<and>
   states (drivers boot 10) ! 0 = idle_state ''A0'' 1 \<and>
   states (drivers after_A 10) ! 0 = poll_state \<and>
   exit_latency (states (drivers after_A 10) ! 0) = 0 \<and>
   target_residency (states (drivers after_A 10) ! 0) = 0 \<and>
   power_usage (states (drivers after_A 10) ! 0) = - 1 \<and>
   flags (states (drivers after_A 10) ! 0) = CPUIDLE_FLAG_TIME_VALID cfg_percpu \<and>
   enter (states (drivers after_A 10) ! 0) = poll_idle \<and>
   tl (states (drivers after_A 10)) = tl (states (drivers boot 10))"
proof -
  have relax: "CONFIG_ARCH_HAS_CPU_RELAX cfg_percpu" by (simp add: cfg_percpu_def)
  have b: "states (drivers boot 10) ! 0 = idle_state ''A0'' 1"
    "states (drivers after_A 10) ! 0 = poll_state"
    by (simp_all add: after_A_drivers drv_A_def drv_A_reg_def)
  from register_injects_poll_state [OF relax boot_register_A] relax boot_register_A b
  show ?thesis by simp
qed

text \<open>
  C10, as stated, fails for a registered driver whose mask has no unit. Driver E has an
  empty mask: \<open>register(E)\<close> succeeds, E is then registered in the sense of the claim,
  every unit of its mask being associated with it, and \<open>register(E)\<close> again returns 0,
  not \<open>-EBUSY\<close>: the loop of \<open>__cpuidle_set_driver\<close> has no unit to find taken.
\<close>

theorem reregister_empty_mask_succeeds:
  "CONFIG_CPU_IDLE_MULTIPLE_DRIVERS cfg_percpu \<and>
   cpuidle_register_driver cfg_percpu boot_E (Some 40) = Some (OK, after_E) \<and>
   registered cfg_percpu after_E 40 \<and>
   cpuidle_register_driver cfg_percpu after_E (Some 40) = Some (OK, after_E)"
  using boot_E_register_E after_E_registered after_E_register_E
  by (simp add: cfg_percpu_def)

text \<open>
  C10, amended. With per-CPU slots, a registered driver whose mask has at least one unit
  is registered again (it passes the checks that come first, and it holds no unit
  outside its mask, as in every state that the operations reach from a registry without
  associations, by \<open>run_exclusive\<close> and \<open>exclusive_inside\<close>). Then
  \<open>cpuidle_register_driver\<close> returns \<open>-EBUSY\<close> and afterwards no unit is associated
  with the driver: the first unit of its mask is taken, by the driver itself, and the
  unwind clears every slot that points to it. The CPUs of other drivers keep their
  drivers.
\<close>

theorem reregister_erases_registration:
  assumes multi: "CONFIG_CPU_IDLE_MULTIPLE_DRIVERS cfg"
    and cnt: "state_count (drivers s d) \<noteq> 0" and inb: "in_bounds (drivers s d)"
    and on: "\<not> off s"
    and reg: "registered cfg s d"
    and inside: "owned cfg s d \<subseteq> units cfg (drivers s d)"
    and some: "units cfg (drivers s d) \<noteq> {}"
  shows "\<exists>s'. cpuidle_register_driver cfg s (Some d) = Some (ERR EBUSY, s') \<and>
              owned cfg s' d = {} \<and>
              (\<forall>c. uu_cpuidle_get_cpu_driver cfg s c \<noteq> Some d \<longrightarrow>
                   uu_cpuidle_get_cpu_driver cfg s' c = uu_cpuidle_get_cpu_driver cfg s c)"
proof -
  let ?s1 = "s\<lparr>drivers := (drivers s)(d := initialised cfg (drivers s d))\<rparr>"
  from some obtain c0 where c0: "c0 \<in> units cfg (drivers s d)" by blast
  with reg have "uu_cpuidle_get_cpu_driver cfg s c0 = Some d"
    by (auto simp: registered_def owned_def)
  with c0 have busy: "\<not> vacant cfg s d" by (rule not_vacant)
  have ret: "cpuidle_register_driver cfg s (Some d) = Some (ERR EBUSY, released cfg ?s1 d)"
    using cnt inb on busy multi by (simp add: cpuidle_register_driver_def register_eq)
  have "owned cfg (released cfg ?s1 d) d = {}"
    using inside multi by (auto simp: owned_def get_released)
  moreover have "uu_cpuidle_get_cpu_driver cfg (released cfg ?s1 d) c = uu_cpuidle_get_cpu_driver cfg s c"
    if "uu_cpuidle_get_cpu_driver cfg s c \<noteq> Some d" for c
    using that by (simp add: get_released)
  ultimately show ?thesis using ret by blast
qed

text \<open>On the machine: A holds CPUs 1 and 2 and is registered again.\<close>

theorem reregister_erases_registration_witness:
  "CONFIG_CPU_IDLE_MULTIPLE_DRIVERS cfg_percpu \<and> state_count (drivers after_A 10) \<noteq> 0 \<and>
   in_bounds (drivers after_A 10) \<and> \<not> off after_A \<and> registered cfg_percpu after_A 10 \<and>
   owned cfg_percpu after_A 10 = {1, 2} \<and> units cfg_percpu (drivers after_A 10) = {1, 2} \<and>
   (\<exists>s'. cpuidle_register_driver cfg_percpu after_A (Some 10) = Some (ERR EBUSY, s') \<and>
         owned cfg_percpu s' 10 = {} \<and>
         uu_cpuidle_get_cpu_driver cfg_percpu s' 0 = uu_cpuidle_get_cpu_driver cfg_percpu after_A 0)"
proof -
  have multi: "CONFIG_CPU_IDLE_MULTIPLE_DRIVERS cfg_percpu" by (simp add: cfg_percpu_def)
  have cnt: "state_count (drivers after_A 10) \<noteq> 0" by (simp add: machine_defs)
  have inb: "in_bounds (drivers after_A 10)" by (simp add: after_A_drivers in_bounds3)
  have on: "\<not> off after_A" by (simp add: machine_defs)
  have u: "units cfg_percpu (drivers after_A 10) = {1, 2}" by (simp add: after_A_drivers units3)
  have inside: "owned cfg_percpu after_A 10 \<subseteq> units cfg_percpu (drivers after_A 10)"
    by (rule exclusive_inside [OF after_A_exclusive])
  have some: "units cfg_percpu (drivers after_A 10) \<noteq> {}" by (simp add: u)
  have g0: "uu_cpuidle_get_cpu_driver cfg_percpu after_A 0 \<noteq> Some 10"
    by (simp add: uu_cpuidle_get_cpu_driver_def machine_defs)
  from reregister_erases_registration [OF multi cnt inb on after_A_registered inside some]
  show ?thesis using multi cnt inb on after_A_registered after_A_owned u g0 by auto
qed

end
